theory Spec2Isabelle
  imports Complex_Main "HOL-Library.Stream" "HOL-Library.Sublist"
begin

section \<open>JavaScript values used by the engine\<close>

text \<open>
  The engine (\<^verbatim>\<open>src/epiagents/epiagents.js\<close>) computes with JavaScript numbers. Finite
  numbers are modelled as reals (no rounding); the three non-finite values are kept, because
  \<^verbatim>\<open>calcInitialRatios\<close> divides by a total that can be zero. Signed zero is not modelled.
\<close>

datatype jsnum = Num real | PosInf | NegInf | NaN

fun js_add :: "jsnum \<Rightarrow> jsnum \<Rightarrow> jsnum" where
  "js_add NaN _ = NaN"
| "js_add _ NaN = NaN"
| "js_add (Num a) (Num b) = Num (a + b)"
| "js_add PosInf NegInf = NaN"
| "js_add NegInf PosInf = NaN"
| "js_add PosInf _ = PosInf"
| "js_add _ PosInf = PosInf"
| "js_add NegInf _ = NegInf"
| "js_add _ NegInf = NegInf"

fun js_div :: "jsnum \<Rightarrow> jsnum \<Rightarrow> jsnum" where
  "js_div NaN _ = NaN"
| "js_div _ NaN = NaN"
| "js_div (Num a) (Num b) =
     (if b \<noteq> 0 then Num (a / b)
      else if 0 < a then PosInf else if a < 0 then NegInf else NaN)"
| "js_div (Num a) _ = Num 0"
| "js_div PosInf (Num b) = (if b < 0 then NegInf else PosInf)"
| "js_div NegInf (Num b) = (if b < 0 then PosInf else NegInf)"
| "js_div _ _ = NaN"

text \<open>The relational operator \<^verbatim>\<open><\<close> on numbers: every comparison with NaN is false.\<close>

fun js_lt :: "jsnum \<Rightarrow> jsnum \<Rightarrow> bool" where
  "js_lt NaN _ = False"
| "js_lt _ NaN = False"
| "js_lt (Num a) (Num b) = (a < b)"
| "js_lt NegInf NegInf = False"
| "js_lt NegInf _ = True"
| "js_lt _ NegInf = False"
| "js_lt PosInf _ = False"
| "js_lt _ PosInf = True"

text \<open>
  A property read that yields \<^verbatim>\<open>undefined\<close> is \<open>None\<close>; \<^verbatim>\<open>x < undefined\<close> and
  \<^verbatim>\<open>undefined > 0\<close> convert \<^verbatim>\<open>undefined\<close> to NaN and are false.
\<close>

definition js_lt_opt :: "jsnum \<Rightarrow> jsnum option \<Rightarrow> bool" where
  "js_lt_opt a b = (case b of None \<Rightarrow> False | Some v \<Rightarrow> js_lt a v)"

definition js_gt0_opt :: "jsnum option \<Rightarrow> bool" where
  "js_gt0_opt a = (case a of None \<Rightarrow> False | Some v \<Rightarrow> js_lt (Num 0) v)"

text \<open>
  \<^verbatim>\<open>a || d\<close> on an optional number: \<^verbatim>\<open>undefined\<close> and \<^verbatim>\<open>0\<close> are falsy and give the
  default. On an optional boolean, \<^verbatim>\<open>undefined\<close> and \<^verbatim>\<open>false\<close> are falsy. An array is
  always truthy, also when empty.
\<close>

definition js_or_real :: "real option \<Rightarrow> real \<Rightarrow> real" where
  "js_or_real a d = (case a of None \<Rightarrow> d | Some v \<Rightarrow> if v = 0 then d else v)"

definition js_or_nat :: "nat option \<Rightarrow> nat \<Rightarrow> nat" where
  "js_or_nat a d = (case a of None \<Rightarrow> d | Some v \<Rightarrow> if v = 0 then d else v)"

definition js_or_bool :: "bool option \<Rightarrow> bool \<Rightarrow> bool" where
  "js_or_bool a d = (case a of None \<Rightarrow> d | Some v \<Rightarrow> if v then v else d)"

definition js_or_array :: "'a list option \<Rightarrow> 'a list \<Rightarrow> 'a list" where
  "js_or_array a d = (case a of None \<Rightarrow> d | Some v \<Rightarrow> v)"

text \<open>\<^verbatim>\<open>ifElse(x, y)\<close>: \<^verbatim>\<open>x\<close> unless it is \<^verbatim>\<open>undefined\<close>.\<close>

definition ifElse :: "'a option \<Rightarrow> 'a \<Rightarrow> 'a" where
  "ifElse x y = (case x of Some v \<Rightarrow> v | None \<Rightarrow> y)"

subsection \<open>Plain objects as ordered association lists\<close>

text \<open>
  A plain object with string keys is an association list in insertion order, which is the
  order \<^verbatim>\<open>for (k in obj)\<close> visits them (the keys here are compartment and counter names,
  none of them an array index). Assigning an existing key keeps its place; assigning a new
  key appends it.
\<close>

fun obj_set :: "string \<Rightarrow> 'a \<Rightarrow> (string \<times> 'a) list \<Rightarrow> (string \<times> 'a) list" where
  "obj_set k v [] = [(k, v)]"
| "obj_set k v ((k', v') # kvs) =
     (if k' = k then (k, v) # kvs else (k', v') # obj_set k v kvs)"

text \<open>
  \<^verbatim>\<open>key in obj\<close> and \<^verbatim>\<open>obj[key]\<close> also see the members every plain object inherits from
  \<^verbatim>\<open>Object.prototype\<close>.
\<close>

definition object_prototype_names :: "string list" where
  "object_prototype_names =
     [''constructor'', ''__defineGetter__'', ''__defineSetter__'', ''hasOwnProperty'',
      ''__lookupGetter__'', ''__lookupSetter__'', ''isPrototypeOf'',
      ''propertyIsEnumerable'', ''toString'', ''valueOf'', ''__proto__'',
      ''toLocaleString'']"

datatype 'a js_prop = Own 'a | Inherited | Missing

definition js_get :: "(string \<times> 'a) list \<Rightarrow> string \<Rightarrow> 'a js_prop" where
  "js_get obj k =
     (case map_of obj k of
        Some v \<Rightarrow> Own v
      | None \<Rightarrow> if List.member object_prototype_names k then Inherited else Missing)"

definition js_in :: "string \<Rightarrow> (string \<times> 'a) list \<Rightarrow> bool" where
  "js_in k obj = (case js_get obj k of Missing \<Rightarrow> False | _ \<Rightarrow> True)"

text \<open>What the engine can throw: its own string messages, and the runtime's TypeError.\<close>

datatype error = Thrown string | TypeError

section \<open>The compartment catalog\<close>

record compartment =
  description :: string
  color :: string
  infected :: bool
  infectiousness :: jsnum
  initialRatio :: jsnum
  nextStateProb :: "(string \<times> jsnum) list"
  initial_proportion :: "jsnum option"

type_synonym catalog = "(string \<times> compartment) list"

definition mk_state ::
  "string \<Rightarrow> string \<Rightarrow> bool \<Rightarrow> real \<Rightarrow> real \<Rightarrow> (string \<times> jsnum) list \<Rightarrow> compartment" where
  "mk_state d c isInf i r nxt =
     \<lparr>description = d, color = c, infected = isInf, infectiousness = Num i,
      initialRatio = Num r, nextStateProb = nxt, initial_proportion = None\<rparr>"

definition SimulationStates :: catalog where
  "SimulationStates =
    [(''SUSCEPTIBLE'', mk_state ''susceptible'' ''rgb(0, 0, 255)'' False 0 95
        [(''VACCINATED'', Num 0.0025)]),
     (''INFECTED_EXPOSED'', mk_state ''exposed'' ''rgb(200, 0, 0)'' True 0 3
        [(''INFECTED_ASYMPTOMATIC'', Num 0.33)]),
     (''INFECTED_ASYMPTOMATIC'', mk_state ''asymptomatic'' ''rgb(210, 0, 0)'' True 0.1 1
        [(''INFECTED_SYMPTOMATIC'', Num 0.33), (''RECOVERED'', Num 0.33)]),
     (''INFECTED_SYMPTOMATIC'', mk_state ''symptomatic'' ''rgb(220, 0, 0)'' True 0.5 1
        [(''INFECTED_ISOLATED'', Num 0.1), (''INFECTED_HOSPITAL'', Num 0.1),
         (''RECOVERED'', Num 0.1)]),
     (''INFECTED_ISOLATED'', mk_state ''isolated'' ''rgb(225, 0, 0)'' True 0.001 0
        [(''INFECTED_HOSPITAL'', Num 0.1), (''RECOVERED'', Num 0.1)]),
     (''INFECTED_HOSPITAL'', mk_state ''hospitalized'' ''rgb(230, 0, 0)'' True 0.5 0
        [(''INFECTED_ICU'', Num 0.1), (''RECOVERED'', Num 0.1)]),
     (''INFECTED_ICU'', mk_state ''high care'' ''rgb(240, 0, 0)'' True 0.5 0
        [(''DEAD'', Num 0.5), (''RECOVERED'', Num 0.1)]),
     (''TREATED'', mk_state ''treated'' ''rgb(0, 150, 40)'' True 0.001 0
        [(''DEAD'', Num 0.0001), (''INFECTED_ASYMPTOMATIC'', Num 0.001)]),
     (''RECOVERED'', mk_state ''recovered'' ''rgb(0, 150, 0)'' False 0 0
        [(''SUSCEPTIBLE'', Num 0.001), (''VACCINATED'', Num 0.001)]),
     (''VACCINATED'', mk_state ''vaccinated'' ''rgb(0, 255, 0)'' False 0 0
        [(''SUSCEPTIBLE'', Num 0.0005)]),
     (''DEAD'', mk_state ''dead'' ''rgb(0, 0, 0)'' False 0 0 [])]"

subsection \<open>Catalog setters\<close>

text \<open>
  The setters take the cluster object; only its catalog is touched, so they are functions
  on the catalog. A \<^verbatim>\<open>throw\<close> is \<open>Inl\<close>: nothing has been assigned before it, and the
  caller keeps the catalog it passed. When the name is only an inherited member, the
  assignment lands on that shared member and the catalog's own entries stay as they are.
\<close>

definition setClusterInitialRatio :: "catalog \<Rightarrow> string \<Rightarrow> jsnum \<Rightarrow> error + catalog" where
  "setClusterInitialRatio sts state val =
     (if js_in state sts then
        (case js_get sts state of
           Own c \<Rightarrow> Inr (obj_set state (c\<lparr>initialRatio := val\<rparr>) sts)
         | _ \<Rightarrow> Inr sts)
      else Inl (Thrown (''Error in setInitialRatio. Unknown state: '' @ state)))"

definition setClusterStateInfectiousness :: "catalog \<Rightarrow> string \<Rightarrow> jsnum \<Rightarrow> error + catalog" where
  "setClusterStateInfectiousness sts state val =
     (if js_in state sts then
        (case js_get sts state of
           Own c \<Rightarrow> Inr (obj_set state (c\<lparr>infectiousness := val\<rparr>) sts)
         | _ \<Rightarrow> Inr sts)
      else Inl (Thrown (''Error in setInfectiousness. Unknown state: '' @ state)))"

text \<open>
  In \<^verbatim>\<open>setClusterTransition\<close> the two guards read \<^verbatim>\<open>!from_state in cluster.states\<close>:
  the negation is applied first, so the key that is looked up is the text of the boolean
  \<^verbatim>\<open>!from_state\<close> (\<^verbatim>\<open>"true"\<close> for the empty name, \<^verbatim>\<open>"false"\<close> otherwise), not the name.
  The assignment that follows reads \<^verbatim>\<open>cluster.states[from_state].nextStateProb\<close> and
  indexes it: a TypeError when the from-state has no entry of its own (an inherited member
  has no \<^verbatim>\<open>nextStateProb\<close> either).
\<close>

definition js_not_string :: "string \<Rightarrow> string" where
  "js_not_string s = (if s = [] then ''true'' else ''false'')"

definition setClusterTransition ::
  "catalog \<Rightarrow> string \<Rightarrow> string \<Rightarrow> jsnum \<Rightarrow> error + catalog" where
  "setClusterTransition sts from_state to_state val =
     (if js_in (js_not_string from_state) sts then
        Inl (Thrown (''Error in setClusterTransition. Unknown from state: '' @ from_state))
      else if js_in (js_not_string to_state) sts then
        Inl (Thrown (''Error in setClusterTransitions. Unknown to state: '' @ to_state))
      else
        (case js_get sts from_state of
           Own c \<Rightarrow>
             Inr (obj_set from_state
                    (c\<lparr>nextStateProb := obj_set to_state val (nextStateProb c)\<rparr>) sts)
         | _ \<Rightarrow> Inl TypeError))"

section \<open>Clusters, agents and the simulation\<close>

text \<open>
  The phase event lists hold functions. The engine's own five events are the constructors
  below; functions supplied by a caller are outside the model.
\<close>

datatype event =
  EventAdvanceAgents | EventMoveAgents | EventCalcResults | EventRecordResult
| EventRecordResultHeader

datatype SimulationPhase = PAUSED | PLAYING

datatype EventPhase = BEFORE | DURING | AFTER

text \<open>
  A cluster. The rendering-only members \<^verbatim>\<open>border\<close> and \<^verbatim>\<open>borderColor\<close> are left out. The
  member \<^verbatim>\<open>states\<close> is named \<open>cluster_states\<close> here, \<^verbatim>\<open>name\<close> is \<open>cluster_name\<close> and
  \<^verbatim>\<open>top\<close> is \<open>top_edge\<close>.
\<close>

record cluster =
  cluster_name :: string
  left :: real
  top_edge :: real
  right :: real
  bottom :: real
  numAgents :: nat
  cluster_states :: catalog
  beforeEvents :: "event list"
  duringEvents :: "event list"
  afterEvents :: "event list"

text \<open>
  An iteration marker: the iteration number, or the text \<^verbatim>\<open>"S"\<close> or \<^verbatim>\<open>"E"\<close>. A history
  entry is the pair \<^verbatim>\<open>[marker, compartmentName]\<close>.
\<close>

datatype marker = Iter nat | MarkS | MarkE

text \<open>
  An agent. \<^verbatim>\<open>agent.cluster\<close> is a reference to one of the simulation's cluster objects: it
  is the index of that cluster in \<^verbatim>\<open>sim.clusters\<close>, so that an edit of the cluster's
  catalog is seen by its agents. \<^verbatim>\<open>agent.sim\<close> is the simulation that is passed along.
  The constructor stores the function returned by \<^verbatim>\<open>gaussian(mean, stdev)\<close> in the member
  \<^verbatim>\<open>movementRandomness\<close>; that function is never called, so it is kept as its two
  parameters. \<^verbatim>\<open>move\<close> reads the member \<^verbatim>\<open>movement_randomness\<close>, a different name, which
  no statement of the repository assigns: \<open>None\<close> is \<^verbatim>\<open>undefined\<close>.
\<close>

record agent =
  agent_id :: nat
  radius :: real
  speed :: real
  states :: "(marker \<times> string) list"
  agent_cluster :: nat
  agent_x :: real
  agent_y :: real
  agent_dx :: real
  agent_dy :: real
  movementRandomness :: "real \<times> real"
  movement_randomness :: "jsnum option"

record counter =
  num :: nat
  print :: bool

datatype cell = CNum nat | CStr string

record config =
  width :: real
  height :: real
  maxArea :: real
  interval :: real
  agentRadius :: real
  movementRandomnessMean :: real
  movementRandomnessStdev :: real
  elasticCollisions :: bool
  agentSpeed :: real
  maxIterations :: nat
  extraBeforeEvents :: "event list"
  extraDuringEvents :: "event list"
  extraAfterEvents :: "event list"

text \<open>
  The simulation. \<^verbatim>\<open>sim.state\<close> is \<open>sim_state\<close>; \<^verbatim>\<open>sim.timer\<close> is whether an interval
  timer is installed; \<^verbatim>\<open>sim.collisions\<close> is never initialised, so it starts as
  \<^verbatim>\<open>undefined\<close> (\<open>None\<close>). \<^verbatim>\<open>config.clusters\<close> and \<^verbatim>\<open>sim.clusters\<close> are one array.
\<close>

record sim =
  config :: config
  clusters :: "cluster list"
  sim_state :: SimulationPhase
  timer :: bool
  agentCounter :: nat
  agents :: "agent list"
  counters :: "(string \<times> counter) list"
  eventPhase :: EventPhase
  results :: "cell list list"
  iteration :: nat
  collisions :: "jsnum option"

subsection \<open>Construction options\<close>

text \<open>
  The options object: every member is optional (\<open>None\<close> when absent). A cluster
  specification overrides the members of the default cluster that it names.
\<close>

record cluster_spec =
  spec_name :: "string option"
  spec_left :: "real option"
  spec_top :: "real option"
  spec_right :: "real option"
  spec_bottom :: "real option"
  spec_numAgents :: "nat option"
  spec_states :: "catalog option"
  spec_beforeEvents :: "event list option"
  spec_duringEvents :: "event list option"
  spec_afterEvents :: "event list option"

record options =
  opt_width :: "real option"
  opt_height :: "real option"
  opt_maxArea :: "real option"
  opt_interval :: "real option"
  opt_agentRadius :: "real option"
  opt_movementRandomnessMean :: "real option"
  opt_movementRandomnessStdev :: "real option"
  opt_elasticCollisions :: "bool option"
  opt_agents_speed :: "real option"
  opt_maxIterations :: "nat option"
  opt_extraBeforeEvents :: "event list option"
  opt_extraDuringEvents :: "event list option"
  opt_extraAfterEvents :: "event list option"
  opt_numAgents :: "nat option"
  opt_simulationStates :: "catalog option"
  opt_beforeEvents :: "event list option"
  opt_duringEvents :: "event list option"
  opt_afterEvents :: "event list option"
  opt_clusters :: "cluster_spec list option"
  opt_agentCounter :: "nat option"
  opt_eventPhase :: "EventPhase option"

definition no_options :: options where
  "no_options =
     \<lparr>opt_width = None, opt_height = None, opt_maxArea = None, opt_interval = None,
      opt_agentRadius = None, opt_movementRandomnessMean = None,
      opt_movementRandomnessStdev = None, opt_elasticCollisions = None,
      opt_agents_speed = None, opt_maxIterations = None, opt_extraBeforeEvents = None,
      opt_extraDuringEvents = None, opt_extraAfterEvents = None, opt_numAgents = None,
      opt_simulationStates = None, opt_beforeEvents = None, opt_duringEvents = None,
      opt_afterEvents = None, opt_clusters = None, opt_agentCounter = None,
      opt_eventPhase = None\<rparr>"

text \<open>The empty cluster specification \<^verbatim>\<open>{}\<close>.\<close>

definition no_spec :: cluster_spec where
  "no_spec =
     \<lparr>spec_name = None, spec_left = None, spec_top = None, spec_right = None,
      spec_bottom = None, spec_numAgents = None, spec_states = None,
      spec_beforeEvents = None, spec_duringEvents = None, spec_afterEvents = None\<rparr>"

definition apply_spec :: "cluster_spec \<Rightarrow> cluster \<Rightarrow> cluster" where
  "apply_spec sp c =
     \<lparr>cluster_name = ifElse (spec_name sp) (cluster_name c),
      left = ifElse (spec_left sp) (left c),
      top_edge = ifElse (spec_top sp) (top_edge c),
      right = ifElse (spec_right sp) (right c),
      bottom = ifElse (spec_bottom sp) (bottom c),
      numAgents = ifElse (spec_numAgents sp) (numAgents c),
      cluster_states = ifElse (spec_states sp) (cluster_states c),
      beforeEvents = ifElse (spec_beforeEvents sp) (beforeEvents c),
      duringEvents = ifElse (spec_duringEvents sp) (duringEvents c),
      afterEvents = ifElse (spec_afterEvents sp) (afterEvents c)\<rparr>"

text \<open>
  The loop over \<^verbatim>\<open>options.clusters\<close>: the first specification overrides the default
  cluster; each later one overrides a copy of cluster 0 as it is by then.
\<close>

definition process_clusters :: "cluster \<Rightarrow> cluster_spec list \<Rightarrow> cluster list" where
  "process_clusters c0 specs =
     (case specs of
        [] \<Rightarrow> [c0]
      | sp # rest \<Rightarrow>
          (let c0' = apply_spec sp c0 in c0' # map (\<lambda>s. apply_spec s c0') rest))"

definition initial_counters :: "(string \<times> counter) list" where
  "initial_counters =
     [(''alive'', \<lparr>num = 0, print = True\<rparr>),
      (''total_initial_infections'', \<lparr>num = 0, print = False\<rparr>),
      (''total_simulation_infections'', \<lparr>num = 0, print = True\<rparr>),
      (''infections'', \<lparr>num = 0, print = True\<rparr>)] @
     map (\<lambda>(k, c). (k, \<lparr>num = 0, print = (k = ''SUSCEPTIBLE'' \<or> k = ''RECOVERED'')\<rparr>))
       SimulationStates"

definition processOptions :: "options \<Rightarrow> sim" where
  "processOptions opts =
     (let w = js_or_real (opt_width opts) 320;
          h = js_or_real (opt_height opts) 320;
          xb = js_or_array (opt_extraBeforeEvents opts) [];
          xd = js_or_array (opt_extraDuringEvents opts) [];
          xa = js_or_array (opt_extraAfterEvents opts) [];
          cfg = \<lparr>width = w, height = h,
                 maxArea = js_or_real (opt_maxArea opts) (w * h),
                 interval = js_or_real (opt_interval opts) 0,
                 agentRadius = js_or_real (opt_agentRadius opts) 3,
                 movementRandomnessMean = js_or_real (opt_movementRandomnessMean opts) 0,
                 movementRandomnessStdev = js_or_real (opt_movementRandomnessStdev opts) 0,
                 elasticCollisions = js_or_bool (opt_elasticCollisions opts) True,
                 agentSpeed = ifElse (opt_agents_speed opts) 1,
                 maxIterations = js_or_nat (opt_maxIterations opts) 0,
                 extraBeforeEvents = xb, extraDuringEvents = xd, extraAfterEvents = xa\<rparr>;
          c0 = \<lparr>cluster_name = ''default'', left = 0, top_edge = 0, right = w, bottom = h,
                numAgents = js_or_nat (opt_numAgents opts) 0,
                cluster_states = ifElse (opt_simulationStates opts) SimulationStates,
                beforeEvents = js_or_array (opt_beforeEvents opts) ([] @ xb),
                duringEvents = js_or_array (opt_duringEvents opts)
                  ([EventAdvanceAgents, EventMoveAgents, EventCalcResults,
                    EventRecordResult] @ xd),
                afterEvents = js_or_array (opt_afterEvents opts)
                  ([EventCalcResults, EventRecordResult] @ xa)\<rparr>
      in \<lparr>config = cfg,
          clusters = (case opt_clusters opts of
                        None \<Rightarrow> [c0]
                      | Some specs \<Rightarrow> process_clusters c0 specs),
          sim_state = PAUSED, timer = False,
          agentCounter = js_or_nat (opt_agentCounter opts) 0,
          agents = [], counters = initial_counters,
          eventPhase = ifElse (opt_eventPhase opts) BEFORE,
          results = [], iteration = 0, collisions = None\<rparr>)"

section \<open>Randomness and loops\<close>

text \<open>
  \<^verbatim>\<open>Math.random()\<close> is ambient state: the stream of the numbers it will return, consumed
  from the head. The engine's state is that stream together with the simulation object. A
  \<^verbatim>\<open>for\<close> loop whose body can throw stops at the first exception.
\<close>

type_synonym world = "real stream \<times> sim"

fun for_each :: "('i \<Rightarrow> 'st \<Rightarrow> error + 'st) \<Rightarrow> 'i list \<Rightarrow> 'st \<Rightarrow> error + 'st" where
  "for_each f [] st = Inr st"
| "for_each f (i # is) st =
     (case f i st of Inl e \<Rightarrow> Inl e | Inr st' \<Rightarrow> for_each f is st')"

section \<open>Agents\<close>

definition DIRECTION :: "(real \<times> real) list" where
  "DIRECTION = [(-1, -1), (-1, 0), (-1, 1), (0, -1), (0, 1), (1, -1), (1, 0), (1, 1)]"

text \<open>Reading an array at a computed index: \<^verbatim>\<open>undefined\<close> outside the array.\<close>

definition js_index :: "'a list \<Rightarrow> int \<Rightarrow> 'a option" where
  "js_index xs i = (if 0 \<le> i \<and> nat i < length xs then Some (xs ! nat i) else None)"

text \<open>
  \<^verbatim>\<open>getStateKey\<close> reads \<^verbatim>\<open>this.states[this.states.length - 1][1]\<close>: a TypeError on an
  empty history.
\<close>

definition getStateKey :: "agent \<Rightarrow> error + string" where
  "getStateKey a = (if states a = [] then Inl TypeError else Inr (snd (last (states a))))"

definition cluster_of :: "sim \<Rightarrow> agent \<Rightarrow> cluster option" where
  "cluster_of s a = js_index (clusters s) (int (agent_cluster a))"

definition getState :: "sim \<Rightarrow> agent \<Rightarrow> error + compartment js_prop" where
  "getState s a =
     (case cluster_of s a of
        None \<Rightarrow> Inl TypeError
      | Some cl \<Rightarrow>
          (case getStateKey a of
             Inl e \<Rightarrow> Inl e
           | Inr k \<Rightarrow> Inr (js_get (cluster_states cl) k)))"

text \<open>
  \<^verbatim>\<open>getInfectiousness\<close>: \<^verbatim>\<open>this.getState().infectiousness\<close>, a TypeError when the current
  compartment has no entry, \<^verbatim>\<open>undefined\<close> when it is only an inherited member.
\<close>

definition getInfectiousness :: "sim \<Rightarrow> agent \<Rightarrow> error + jsnum option" where
  "getInfectiousness s a =
     (case getState s a of
        Inl e \<Rightarrow> Inl e
      | Inr (Own c) \<Rightarrow> Inr (Some (infectiousness c))
      | Inr Inherited \<Rightarrow> Inr None
      | Inr Missing \<Rightarrow> Inl TypeError)"

definition setDirection :: "real stream \<Rightarrow> agent \<Rightarrow> error + (real stream \<times> agent)" where
  "setDirection rnd a =
     (case js_index DIRECTION \<lfloor>shd rnd * 8\<rfloor> of
        None \<Rightarrow> Inl TypeError
      | Some d \<Rightarrow>
          Inr (stl rnd, a\<lparr>agent_dx := fst d * speed a, agent_dy := snd d * speed a\<rparr>))"

definition correctPosition :: "cluster \<Rightarrow> agent \<Rightarrow> agent" where
  "correctPosition cl a =
     (let a1 = (if agent_x a - radius a < left cl then a\<lparr>agent_x := left cl + radius a\<rparr>
                else if agent_x a + radius a > right cl
                then a\<lparr>agent_x := right cl - radius a\<rparr> else a)
      in if agent_y a1 - radius a1 < top_edge cl
         then a1\<lparr>agent_y := top_edge cl + radius a1\<rparr>
         else if agent_y a1 + radius a1 > bottom cl
         then a1\<lparr>agent_y := bottom cl - radius a1\<rparr> else a1)"

text \<open>
  The constructor \<^verbatim>\<open>new Agent(sim, cluster)\<close>. The cluster argument is the position of a
  cluster of the simulation, or \<open>None\<close> for \<^verbatim>\<open>undefined\<close>, in which case one is drawn. The
  history starts empty.
\<close>

definition Agent :: "real stream \<Rightarrow> sim \<Rightarrow> nat option \<Rightarrow> error + (real stream \<times> sim \<times> agent)" where
  "Agent rnd s cl_arg =
     (let s1 = s\<lparr>agentCounter := agentCounter s + 1\<rparr>;
          (index, rnd1) =
            (case cl_arg of
               Some i \<Rightarrow> (int i, rnd)
             | None \<Rightarrow> (\<lfloor>shd rnd * real (length (clusters s))\<rfloor>, stl rnd))
      in case js_index (clusters s) index of
           None \<Rightarrow> Inl TypeError
         | Some cl \<Rightarrow>
             (let a = \<lparr>agent_id = agentCounter s,
                       radius = agentRadius (config s),
                       speed = agentSpeed (config s),
                       states = [],
                       agent_cluster = nat index,
                       agent_x = shd rnd1 * (right cl - left cl) + left cl,
                       agent_y = shd (stl rnd1) * (bottom cl - top_edge cl) + top_edge cl,
                       agent_dx = 0, agent_dy = 0,
                       movementRandomness =
                         (movementRandomnessMean (config s),
                          movementRandomnessStdev (config s)),
                       movement_randomness = None\<rparr>
              in case setDirection (stl (stl rnd1)) (correctPosition cl a) of
                   Inl e \<Rightarrow> Inl e
                 | Inr (rnd2, a') \<Rightarrow> Inr (rnd2, s1, a')))"

subsection \<open>Collision and infection\<close>

definition distanceSquared :: "real \<Rightarrow> real \<Rightarrow> real \<Rightarrow> real \<Rightarrow> real" where
  "distanceSquared x1 x2 y1 y2 = (x1 - x2) * (x1 - x2) + (y1 - y2) * (y1 - y2)"

text \<open>\<^verbatim>\<open>++sim.collisions\<close> on a member that starts as \<^verbatim>\<open>undefined\<close> gives NaN.\<close>

definition js_incr :: "jsnum option \<Rightarrow> jsnum option" where
  "js_incr c = Some (case c of None \<Rightarrow> NaN | Some v \<Rightarrow> js_add v (Num 1))"

definition detectCollision :: "sim \<Rightarrow> agent \<Rightarrow> agent \<Rightarrow> bool \<times> sim" where
  "detectCollision s agent_a agent_b =
     (if distanceSquared (agent_x agent_a) (agent_x agent_b) (agent_y agent_a) (agent_y agent_b)
         < (radius agent_a + radius agent_b) * (radius agent_a + radius agent_b)
      then (True, s\<lparr>collisions := js_incr (collisions s)\<rparr>)
      else if distanceSquared (agent_x agent_a + agent_dx agent_a)
                (agent_x agent_b + agent_dx agent_b)
                (agent_y agent_a + agent_dy agent_a)
                (agent_y agent_b + agent_dy agent_b)
              < (radius agent_a + radius agent_b) * (radius agent_a + radius agent_b)
      then (True, s)
      else (False, s))"

text \<open>
  \<^verbatim>\<open>++sim.counters.k.num\<close> for a literal counter name: a TypeError if the counter is not
  there.
\<close>

definition counter_incr :: "string \<Rightarrow> (string \<times> counter) list \<Rightarrow> error + (string \<times> counter) list" where
  "counter_incr k cs =
     (case map_of cs k of
        None \<Rightarrow> Inl TypeError
      | Some c \<Rightarrow> Inr (obj_set k (c\<lparr>num := Suc (num c)\<rparr>) cs))"

definition push_state :: "marker \<times> string \<Rightarrow> agent \<Rightarrow> agent" where
  "push_state e a = a\<lparr>states := states a @ [e]\<rparr>"

text \<open>
  \<^verbatim>\<open>makeInfection(from_agent, to_agent, risk)\<close>; the susceptible agent is the one at
  position \<open>t\<close> of \<^verbatim>\<open>sim.agents\<close>.
\<close>

fun makeInfection :: "nat \<Rightarrow> jsnum option \<Rightarrow> world \<Rightarrow> error + world" where
  "makeInfection t risk (rnd, s) =
       (
        if js_lt_opt (Num (shd rnd)) risk then
          (let s1 = s\<lparr>agents :=
                       (agents s)[t := push_state (Iter (iteration s), ''INFECTED_EXPOSED'')
                                         (agents s ! t)]\<rparr>
           in case counter_incr ''total_simulation_infections'' (counters s1) of
                Inl e \<Rightarrow> Inl e
              | Inr cs \<Rightarrow> Inr (stl rnd, s1\<lparr>counters := cs\<rparr>))
        else Inr (stl rnd, s))"

text \<open>
  \<^verbatim>\<open>this.infectAgent(agent)\<close>, with \<^verbatim>\<open>this\<close> at position \<open>i\<close> and \<^verbatim>\<open>agent\<close> at position
  \<open>j\<close> of \<^verbatim>\<open>sim.agents\<close>.
\<close>

fun infectAgent :: "nat \<Rightarrow> nat \<Rightarrow> world \<Rightarrow> error + world" where
  "infectAgent i j (rnd, s) =
       (
        case getInfectiousness s (agents s ! i) of
          Inl e \<Rightarrow> Inl e
        | Inr this_infectiousness \<Rightarrow>
            (case getInfectiousness s (agents s ! j) of
               Inl e \<Rightarrow> Inl e
             | Inr agent_infectiousness \<Rightarrow>
                 if getStateKey (agents s ! i) = Inr ''SUSCEPTIBLE'' \<and>
                    js_gt0_opt agent_infectiousness
                 then makeInfection i agent_infectiousness (rnd, s)
                 else if getStateKey (agents s ! j) = Inr ''SUSCEPTIBLE'' \<and>
                         js_gt0_opt this_infectiousness
                 then makeInfection j this_infectiousness (rnd, s)
                 else Inr (rnd, s)))"

text \<open>
  One pass of the loop of \<^verbatim>\<open>detectInfections\<close>: \<^verbatim>\<open>this\<close> is at position \<open>i\<close>, the loop
  variable \<^verbatim>\<open>agent\<close> at position \<open>j\<close>. Both objects are read afresh, since earlier passes
  may have swapped velocities.
\<close>

definition swap_velocity :: "nat \<Rightarrow> nat \<Rightarrow> agent list \<Rightarrow> agent list" where
  "swap_velocity i j ags =
     (let this = ags ! i; other = ags ! j in
        (ags[i := this\<lparr>agent_dx := agent_dx other, agent_dy := agent_dy other\<rparr>])
           [j := other\<lparr>agent_dx := agent_dx this, agent_dy := agent_dy this\<rparr>])"

fun detect_step :: "nat \<Rightarrow> nat \<Rightarrow> world \<Rightarrow> error + world" where
  "detect_step i j (rnd, s) =
       (
        if agent_id (agents s ! j) \<noteq> agent_id (agents s ! i) then
          (case detectCollision s (agents s ! i) (agents s ! j) of
             (hit, s1) \<Rightarrow>
               if hit then
                 (let s2 = (if elasticCollisions (config s1) \<and>
                               agent_id (agents s1 ! i) < agent_id (agents s1 ! j)
                            then s1\<lparr>agents := swap_velocity i j (agents s1)\<rparr>
                            else s1)
                  in infectAgent i j (rnd, s2))
               else Inr (rnd, s1))
        else Inr (rnd, s))"

definition detectInfections :: "nat \<Rightarrow> world \<Rightarrow> error + world" where
  "detectInfections i w = for_each (detect_step i) [0..<length (agents (snd w))] w"

subsection \<open>Motion\<close>

definition reflect :: "cluster \<Rightarrow> agent \<Rightarrow> agent" where
  "reflect cl a =
     (let a1 = (if agent_x a + agent_dx a \<ge> right cl - radius a \<or>
                   agent_x a + agent_dx a \<le> left cl + radius a
                then a\<lparr>agent_dx := - agent_dx a\<rparr> else a)
      in if agent_y a1 + agent_dy a1 \<ge> bottom cl - radius a1 \<or>
            agent_y a1 + agent_dy a1 \<le> top_edge cl + radius a1
         then a1\<lparr>agent_dy := - agent_dy a1\<rparr> else a1)"

text \<open>
  \<^verbatim>\<open>move\<close> for the agent at position \<open>i\<close>. The draw for the re-direction test is taken
  before the comparison with \<^verbatim>\<open>this.movement_randomness\<close>.
\<close>

fun move :: "nat \<Rightarrow> world \<Rightarrow> error + world" where
  "move i (rnd, s) =
       (
        case getStateKey (agents s ! i) of
          Inl e \<Rightarrow> Inl e
        | Inr k \<Rightarrow>
            if k = ''DEAD'' then
              Inr (rnd, s\<lparr>agents := (agents s)[i := (agents s ! i)\<lparr>agent_x := -1000,
                                                                  agent_y := -1000\<rparr>]\<rparr>)
            else
              (case (if js_lt_opt (Num (shd rnd)) (movement_randomness (agents s ! i))
                     then setDirection (stl rnd) (agents s ! i)
                     else Inr (stl rnd, agents s ! i)) of
                 Inl e \<Rightarrow> Inl e
               | Inr (rnd1, a1) \<Rightarrow>
                   (case cluster_of s a1 of
                      None \<Rightarrow> Inl TypeError
                    | Some cl \<Rightarrow>
                        (case detectInfections i
                                (rnd1, s\<lparr>agents := (agents s)[i := reflect cl a1]\<rparr>) of
                           Inl e \<Rightarrow> Inl e
                         | Inr (rnd2, s2) \<Rightarrow>
                             (let a2 = agents s2 ! i;
                                  a3 = a2\<lparr>agent_x := agent_x a2 + agent_dx a2,
                                          agent_y := agent_y a2 + agent_dy a2\<rparr>
                              in Inr (rnd2,
                                   s2\<lparr>agents := (agents s2)[i := correctPosition cl a3]\<rparr>))))))"

section \<open>Events\<close>

subsection \<open>eventMoveAgents\<close>

fun move_agent :: "nat \<Rightarrow> world \<Rightarrow> error + world" where
  "move_agent i (rnd, s) =
     (case getStateKey (agents s ! i) of
        Inl e \<Rightarrow> Inl e
      | Inr k \<Rightarrow> if k \<noteq> ''DEAD'' then move i (rnd, s) else Inr (rnd, s))"

definition eventMoveAgents :: "world \<Rightarrow> error + world" where
  "eventMoveAgents w = for_each move_agent [0..<length (agents (snd w))] w"

subsection \<open>eventAdvanceAgents\<close>

text \<open>
  The innermost loop: the outgoing transitions of one compartment in insertion order, one
  draw for each, left by \<^verbatim>\<open>break\<close> at the first success.
\<close>

fun first_match :: "(string \<times> jsnum) list \<Rightarrow> real stream \<Rightarrow> string option \<times> real stream" where
  "first_match [] rnd = (None, rnd)"
| "first_match ((next_state, risk) # rest) rnd =
     (if js_lt (Num (shd rnd)) risk then (Some next_state, stl rnd)
      else first_match rest (stl rnd))"

text \<open>
  One pass of the middle loop \<^verbatim>\<open>for (const state in agent.cluster.states)\<close>: the test
  calls \<^verbatim>\<open>agent.getStateKey()\<close> again on every pass, and the \<^verbatim>\<open>break\<close> above leaves only
  the innermost loop.
\<close>

fun advance_state ::
  "nat \<Rightarrow> string \<times> compartment \<Rightarrow> real stream \<times> agent \<Rightarrow> error + (real stream \<times> agent)" where
  "advance_state it (state, c) (rnd, a) =
     (case getStateKey a of
        Inl e \<Rightarrow> Inl e
      | Inr k \<Rightarrow>
          if k = state then
            (case first_match (nextStateProb c) rnd of
               (None, rnd') \<Rightarrow> Inr (rnd', a)
             | (Some next_state, rnd') \<Rightarrow> Inr (rnd', push_state (Iter it, next_state) a))
          else Inr (rnd, a))"

fun advance_agent :: "nat \<Rightarrow> world \<Rightarrow> error + world" where
  "advance_agent i (rnd, s) =
     (case cluster_of s (agents s ! i) of
        None \<Rightarrow> Inl TypeError
      | Some cl \<Rightarrow>
          (case for_each (advance_state (iteration s)) (cluster_states cl)
                  (rnd, agents s ! i) of
             Inl e \<Rightarrow> Inl e
           | Inr (rnd', a') \<Rightarrow> Inr (rnd', s\<lparr>agents := (agents s)[i := a']\<rparr>)))"

definition eventAdvanceAgents :: "world \<Rightarrow> error + world" where
  "eventAdvanceAgents w = for_each advance_agent [0..<length (agents (snd w))] w"

subsection \<open>eventCalcResults\<close>

definition reset_counters :: "(string \<times> counter) list \<Rightarrow> (string \<times> counter) list" where
  "reset_counters cs =
     map (\<lambda>(key, c). if take 6 key \<noteq> ''total_'' then (key, c\<lparr>num := 0\<rparr>) else (key, c)) cs"

text \<open>
  \<^verbatim>\<open>if (state in sim.counters) ++sim.counters[state].num\<close>: when the name is only an
  inherited member the increment lands on that member, not on a counter.
\<close>

definition bump_state_counter :: "string \<Rightarrow> (string \<times> counter) list \<Rightarrow> (string \<times> counter) list" where
  "bump_state_counter state cs =
     (if js_in state cs then
        (case js_get cs state of
           Own c \<Rightarrow> obj_set state (c\<lparr>num := Suc (num c)\<rparr>) cs
         | _ \<Rightarrow> cs)
      else cs)"

definition js_infected :: "compartment js_prop \<Rightarrow> bool" where
  "js_infected p = (case p of Own c \<Rightarrow> infected c | _ \<Rightarrow> False)"

definition calc_agent :: "sim \<Rightarrow> agent \<Rightarrow> (string \<times> counter) list \<Rightarrow> error + (string \<times> counter) list" where
  "calc_agent s a cs =
     (case getStateKey a of
        Inl e \<Rightarrow> Inl e
      | Inr state \<Rightarrow>
          (case getState s a of
             Inl e \<Rightarrow> Inl e
           | Inr Missing \<Rightarrow> Inl TypeError
           | Inr p \<Rightarrow>
               (case (if js_infected p
                      then counter_incr ''infections'' (bump_state_counter state cs)
                      else Inr (bump_state_counter state cs)) of
                  Inl e \<Rightarrow> Inl e
                | Inr cs2 \<Rightarrow>
                    if state \<noteq> ''DEAD'' then counter_incr ''alive'' cs2 else Inr cs2)))"

fun eventCalcResults :: "world \<Rightarrow> error + world" where
  "eventCalcResults (rnd, s) =
     (case for_each (calc_agent s) (agents s) (reset_counters (counters s)) of
        Inl e \<Rightarrow> Inl e
      | Inr cs \<Rightarrow> Inr (rnd, s\<lparr>counters := cs\<rparr>))"

subsection \<open>The results log\<close>

fun eventRecordResultHeader :: "world \<Rightarrow> error + world" where
  "eventRecordResultHeader (rnd, s) =
     Inr (rnd, s\<lparr>results := results s @ [CStr ''#'' # map (\<lambda>(key, c). CStr key) (counters s)]\<rparr>)"

definition phase_cell :: "sim \<Rightarrow> cell" where
  "phase_cell s =
     (case eventPhase s of
        DURING \<Rightarrow> CNum (iteration s)
      | BEFORE \<Rightarrow> CStr ''S''
      | AFTER \<Rightarrow> CStr ''E'')"

fun eventRecordResult :: "world \<Rightarrow> error + world" where
  "eventRecordResult (rnd, s) =
     Inr (rnd, s\<lparr>results := results s @
                   [phase_cell s # map (\<lambda>(key, c). CNum (num c)) (counters s)]\<rparr>)"

section \<open>The simulation's lifecycle\<close>

fun run_event :: "event \<Rightarrow> world \<Rightarrow> error + world" where
  "run_event EventAdvanceAgents w = eventAdvanceAgents w"
| "run_event EventMoveAgents w = eventMoveAgents w"
| "run_event EventCalcResults w = eventCalcResults w"
| "run_event EventRecordResult w = eventRecordResult w"
| "run_event EventRecordResultHeader w = eventRecordResultHeader w"

definition runEvents :: "event list \<Rightarrow> world \<Rightarrow> error + world" where
  "runEvents events w = for_each run_event events w"

fun beforeIteration :: "world \<Rightarrow> error + world" where
  "beforeIteration (rnd, s) =
     for_each (\<lambda>cl. runEvents (beforeEvents cl)) (clusters s) (rnd, s\<lparr>eventPhase := BEFORE\<rparr>)"

fun afterIteration :: "world \<Rightarrow> error + world" where
  "afterIteration (rnd, s) =
     for_each (\<lambda>cl. runEvents (afterEvents cl)) (clusters s) (rnd, s\<lparr>eventPhase := AFTER\<rparr>)"

text \<open>\<^verbatim>\<open>pause\<close> also clears the interval timer.\<close>

fun pause :: "world \<Rightarrow> world" where
  "pause (rnd, s) =
     (if sim_state s \<noteq> PAUSED then (rnd, s\<lparr>sim_state := PAUSED, timer := False\<rparr>)
      else (rnd, s))"

definition stop :: "world \<Rightarrow> error + world" where
  "stop w = afterIteration (pause w)"

fun oneIteration :: "world \<Rightarrow> error + world" where
  "oneIteration (rnd, s) =
     (case for_each (\<lambda>cl. runEvents (duringEvents cl)) (clusters s)
             (rnd, s\<lparr>eventPhase := DURING\<rparr>) of
        Inl e \<Rightarrow> Inl e
      | Inr (rnd1, s1) \<Rightarrow>
          (let s2 = s1\<lparr>iteration := iteration s1 + 1\<rparr> in
             if maxIterations (config s2) > 0 \<and>
                iteration s2 mod maxIterations (config s2) = 0
             then stop (rnd1, s2) else Inr (rnd1, s2)))"

fun step :: "world \<Rightarrow> error + world" where
  "step (rnd, s) =
     (if sim_state s \<noteq> PLAYING then
        (case (if iteration s = 0 then beforeIteration (rnd, s) else Inr (rnd, s)) of
           Inl e \<Rightarrow> Inl e
         | Inr w \<Rightarrow> oneIteration w)
      else Inr (rnd, s))"

text \<open>
  \<^verbatim>\<open>play\<close> installs the interval timer; each firing of the timer is a call of
  \<open>oneIteration\<close> by the environment.
\<close>

fun play :: "world \<Rightarrow> error + world" where
  "play (rnd, s) =
     (if sim_state s \<noteq> PLAYING then
        (case (if iteration s = 0 then beforeIteration (rnd, s\<lparr>sim_state := PLAYING\<rparr>)
               else Inr (rnd, s\<lparr>sim_state := PLAYING\<rparr>)) of
           Inl e \<Rightarrow> Inl e
         | Inr (rnd1, s1) \<Rightarrow> Inr (rnd1, s1\<lparr>timer := True\<rparr>))
      else Inr (rnd, s))"

subsection \<open>Initialization\<close>

fun generate_step :: "nat option \<Rightarrow> nat \<Rightarrow> world \<Rightarrow> error + world" where
  "generate_step cl i (rnd, s) =
     (case Agent rnd s cl of
        Inl e \<Rightarrow> Inl e
      | Inr (rnd', s', a) \<Rightarrow> Inr (rnd', s'\<lparr>agents := agents s' @ [a]\<rparr>))"

definition generateAgents :: "nat \<Rightarrow> nat option \<Rightarrow> world \<Rightarrow> error + world" where
  "generateAgents n cl w = for_each (generate_step cl) [0..<n] w"

fun createAgents :: "world \<Rightarrow> error + world" where
  "createAgents (rnd, s) =
     for_each (\<lambda>i. generateAgents (numAgents (clusters s ! i)) (Some i))
       [0..<length (clusters s)] (rnd, s\<lparr>agents := []\<rparr>)"

definition removeAgents :: "nat \<Rightarrow> sim \<Rightarrow> sim" where
  "removeAgents n s = s\<lparr>agents := take (length (agents s) - n) (agents s)\<rparr>"

text \<open>
  \<^verbatim>\<open>calcInitialRatios\<close>: the total of the weights (\<^verbatim>\<open>parseFloat\<close> of a number is that
  number), then the running sum of weight over total. There is no test of the total.
\<close>

fun cumulate :: "jsnum \<Rightarrow> jsnum \<Rightarrow> catalog \<Rightarrow> catalog" where
  "cumulate tot cumulative [] = []"
| "cumulate tot cumulative ((state, c) # rest) =
     (let r = js_div (initialRatio c) tot in
        (state, c\<lparr>initial_proportion := Some (js_add cumulative r)\<rparr>)
          # cumulate tot (js_add cumulative r) rest)"

definition ratio_total :: "catalog \<Rightarrow> jsnum" where
  "ratio_total sts = foldl (\<lambda>tot (state, c). js_add tot (initialRatio c)) (Num 0) sts"

definition calcInitialRatios :: "sim \<Rightarrow> sim" where
  "calcInitialRatios s =
     s\<lparr>clusters :=
         map (\<lambda>cl. cl\<lparr>cluster_states :=
                        cumulate (ratio_total (cluster_states cl)) (Num 0) (cluster_states cl)\<rparr>)
           (clusters s)\<rparr>"

text \<open>
  \<^verbatim>\<open>calcInitialStates(from, to)\<close>: one draw for each agent, and the first compartment whose
  cumulative proportion exceeds the draw; when there is none, nothing is pushed.
\<close>

fun initial_step :: "nat \<Rightarrow> world \<Rightarrow> error + world" where
  "initial_step i (rnd, s) =
     (case js_index (agents s) (int i) of
        None \<Rightarrow> Inl TypeError
      | Some a \<Rightarrow>
          (case cluster_of s a of
             None \<Rightarrow> Inl TypeError
           | Some cl \<Rightarrow>
               (case find (\<lambda>(state, c). js_lt_opt (Num (shd rnd)) (initial_proportion c))
                       (cluster_states cl) of
                  None \<Rightarrow> Inr (stl rnd, s)
                | Some (state, c) \<Rightarrow>
                    (let s1 = s\<lparr>agents := (agents s)[i := push_state (MarkS, state) a]\<rparr> in
                       if infected c then
                         (case counter_incr ''total_initial_infections'' (counters s1) of
                            Inl e \<Rightarrow> Inl e
                          | Inr cs \<Rightarrow> Inr (stl rnd, s1\<lparr>counters := cs\<rparr>))
                       else Inr (stl rnd, s1)))))"

definition calcInitialStates :: "nat \<Rightarrow> nat option \<Rightarrow> world \<Rightarrow> error + world" where
  "calcInitialStates from to w =
     for_each initial_step [from..<(case to of None \<Rightarrow> length (agents (snd w)) | Some t \<Rightarrow> t)] w"

definition initialize :: "world \<Rightarrow> error + world" where
  "initialize w =
     (case createAgents w of
        Inl e \<Rightarrow> Inl e
      | Inr (rnd1, s1) \<Rightarrow>
          (case calcInitialStates 0 None (rnd1, calcInitialRatios s1) of
             Inl e \<Rightarrow> Inl e
           | Inr w2 \<Rightarrow> eventCalcResults w2))"

subsection \<open>Catalog setters on the simulation\<close>

text \<open>
  A setter called on cluster \<open>ci\<close> of the simulation, and the forms that loop over all
  clusters and over an array of parameters. A throw leaves what earlier passes of the loop
  have already assigned; the model returns only the error.
\<close>

definition on_cluster :: "nat \<Rightarrow> (catalog \<Rightarrow> error + catalog) \<Rightarrow> sim \<Rightarrow> error + sim" where
  "on_cluster ci f s =
     (case js_index (clusters s) (int ci) of
        None \<Rightarrow> Inl TypeError
      | Some cl \<Rightarrow>
          (case f (cluster_states cl) of
             Inl e \<Rightarrow> Inl e
           | Inr sts \<Rightarrow> Inr (s\<lparr>clusters := (clusters s)[ci := cl\<lparr>cluster_states := sts\<rparr>]\<rparr>)))"

definition setInitialRatio :: "string \<Rightarrow> jsnum \<Rightarrow> sim \<Rightarrow> error + sim" where
  "setInitialRatio state val s = on_cluster 0 (\<lambda>sts. setClusterInitialRatio sts state val) s"

definition setInitialRatios :: "(string \<times> jsnum) list \<Rightarrow> sim \<Rightarrow> error + sim" where
  "setInitialRatios arr s =
     for_each
       (\<lambda>ci. for_each
                (\<lambda>parms. on_cluster ci (\<lambda>sts. setClusterInitialRatio sts (fst parms) (snd parms)))
                arr)
       [0..<length (clusters s)] s"

definition clearAllInitialRatios :: "sim \<Rightarrow> error + sim" where
  "clearAllInitialRatios s =
     for_each
       (\<lambda>ci s'. case js_index (clusters s') (int ci) of
                  None \<Rightarrow> Inl TypeError
                | Some cl \<Rightarrow>
                    for_each
                      (\<lambda>state. on_cluster ci (\<lambda>sts. setClusterInitialRatio sts state (Num 0)))
                      (map fst (cluster_states cl)) s')
       [0..<length (clusters s)] s"

definition setInfectiousness :: "string \<Rightarrow> jsnum \<Rightarrow> sim \<Rightarrow> error + sim" where
  "setInfectiousness state val s =
     on_cluster 0 (\<lambda>sts. setClusterStateInfectiousness sts state val) s"

definition setClusterTransitions ::
  "nat \<Rightarrow> (string \<times> string \<times> jsnum) list \<Rightarrow> sim \<Rightarrow> error + sim" where
  "setClusterTransitions ci arr s =
     for_each
       (\<lambda>parms. on_cluster ci
          (\<lambda>sts. setClusterTransition sts (fst parms) (fst (snd parms)) (snd (snd parms))))
       arr s"

definition setTransitions :: "(string \<times> string \<times> jsnum) list \<Rightarrow> sim \<Rightarrow> error + sim" where
  "setTransitions arr s =
     for_each (\<lambda>ci. setClusterTransitions ci arr) [0..<length (clusters s)] s"

subsection \<open>Sequencing calls that can throw\<close>

definition and_then :: "error + 'a \<Rightarrow> ('a \<Rightarrow> error + 'b) \<Rightarrow> error + 'b" where
  "and_then m f = (case m of Inl e \<Rightarrow> Inl e | Inr x \<Rightarrow> f x)"

definition on_sim :: "(sim \<Rightarrow> error + sim) \<Rightarrow> world \<Rightarrow> error + world" where
  "on_sim f w = (case f (snd w) of Inl e \<Rightarrow> Inl e | Inr s \<Rightarrow> Inr (fst w, s))"

text \<open>What an observer reads off a run that did not throw.\<close>

definition observe :: "('w \<Rightarrow> 'a) \<Rightarrow> error + 'w \<Rightarrow> error + 'a" where
  "observe f r = map_sum id f r"

definition agent_histories :: "world \<Rightarrow> (marker \<times> string) list list" where
  "agent_histories w = map states (agents (snd w))"

definition agent_motion :: "world \<Rightarrow> ((real \<times> real) \<times> (real \<times> real)) list" where
  "agent_motion w =
     map (\<lambda>a. ((agent_x a, agent_y a), (agent_dx a, agent_dy a))) (agents (snd w))"

definition collision_view ::
  "world \<Rightarrow> (marker \<times> string) list list \<times> ((real \<times> real) \<times> (real \<times> real)) list \<times> jsnum option" where
  "collision_view w = (agent_histories w, agent_motion w, collisions (snd w))"

definition randomness_view :: "world \<Rightarrow> ((real \<times> real) \<times> jsnum option) list" where
  "randomness_view w =
     map (\<lambda>a. (movementRandomness a, movement_randomness a)) (agents (snd w))"

definition counter_value :: "string \<Rightarrow> sim \<Rightarrow> nat option" where
  "counter_value k s = map_option num (map_of (counters s) k)"

definition counter_values :: "string list \<Rightarrow> world \<Rightarrow> nat option list" where
  "counter_values ks w = map (\<lambda>k. counter_value k (snd w)) ks"

definition result_markers :: "world \<Rightarrow> cell list" where
  "result_markers w = map hd (results (snd w))"

definition proportions :: "world \<Rightarrow> jsnum option list list" where
  "proportions w =
     map (\<lambda>cl. map (\<lambda>(state, c). initial_proportion c) (cluster_states cl)) (clusters (snd w))"

definition transitions_of :: "string \<Rightarrow> catalog \<Rightarrow> (string \<times> jsnum) list option" where
  "transitions_of state sts = map_option nextStateProb (map_of sts state)"

section \<open>Concrete runs\<close>

text \<open>
  Inputs of the runs evaluated below: the numbers \<^verbatim>\<open>Math.random()\<close> returns, in the order
  the engine asks for them, and the simulation the run starts from.
\<close>

text \<open>
  One agent in the default cluster. Construction takes three draws (x, y, direction); the
  fourth, 0.96, falls between the cumulative proportions 0.95 and 0.98 and makes the agent
  INFECTED_EXPOSED. In the tick, 0.1 is below both 0.33 edges; every later draw is 0.5.
\<close>

definition draws_cascade :: "real stream" where
  "draws_cascade = 0.5 ## 0.5 ## 0.5 ## 0.96 ## 0.1 ## 0.1 ## sconst 0.5"

definition world_cascade :: "error + world" where
  "world_cascade =
     initialize (draws_cascade, processOptions (no_options\<lparr>opt_numAgents := Some 1\<rparr>))"

text \<open>
  One agent, movement randomness configured with mean 1 and deviation 0 (a re-direction at
  every tick). Construction: x and y in the middle, direction draw 0.5 (index 4, velocity
  (0, 1)); initial compartment draw 0.5 (SUSCEPTIBLE). In the tick: 0.9 fails the
  vaccination edge, then the re-direction test draws 0; a re-direction would draw 0 again
  and choose index 0, velocity (-1, -1).
\<close>

definition draws_redirect :: "real stream" where
  "draws_redirect = 0.5 ## 0.5 ## 0.5 ## 0.5 ## 0.9 ## 0 ## sconst 0"

definition world_redirect :: "error + world" where
  "world_redirect =
     initialize
       (draws_redirect,
        processOptions (no_options\<lparr>opt_numAgents := Some 1,
                                     opt_movementRandomnessMean := Some 1\<rparr>))"

text \<open>
  Two agents, initial ratios SUSCEPTIBLE 1 and DEAD 1 (all others 0). Both are placed at
  (160, 160); agent 0 draws direction index 4 and compartment SUSCEPTIBLE (0.1), agent 1
  draws direction index 0 and compartment DEAD (0.9).
\<close>

definition draws_dead :: "real stream" where
  "draws_dead = 0.5 ## 0.5 ## 0.5 ## 0.5 ## 0.5 ## 0 ## 0.1 ## 0.9 ## sconst 0.9"

definition world_dead :: "error + world" where
  "world_dead =
     and_then
       (setInitialRatios
          [(''SUSCEPTIBLE'', Num 1), (''INFECTED_EXPOSED'', Num 0),
           (''INFECTED_ASYMPTOMATIC'', Num 0), (''INFECTED_SYMPTOMATIC'', Num 0),
           (''DEAD'', Num 1)]
          (processOptions (no_options\<lparr>opt_numAgents := Some 2\<rparr>)))
       (\<lambda>s. initialize (draws_dead, s))"

section \<open>Notions used in the properties\<close>

subsection \<open>What a metrics pass counts\<close>

text \<open>
  The number of increments the scan of \<^verbatim>\<open>eventCalcResults\<close> gives the counter named \<open>k\<close>
  for one agent: one if the agent's compartment has that name, one more for
  \<^verbatim>\<open>infections\<close> if the compartment is marked infected, one more for \<^verbatim>\<open>alive\<close> if it
  is not DEAD.
\<close>

definition agent_tally :: "sim \<Rightarrow> string \<Rightarrow> agent \<Rightarrow> nat" where
  "agent_tally s k a =
     (case getStateKey a of
        Inl e \<Rightarrow> 0
      | Inr state \<Rightarrow>
          (if state = k then 1 else 0) +
          (if k = ''infections'' \<and> observe js_infected (getState s a) = Inr True then 1 else 0) +
          (if k = ''alive'' \<and> state \<noteq> ''DEAD'' then 1 else 0))"

definition tally :: "sim \<Rightarrow> string \<Rightarrow> agent list \<Rightarrow> nat" where
  "tally s k ags = sum_list (map (agent_tally s k) ags)"

text \<open>
  When a metrics pass completes: every agent has a current compartment that its cluster's
  catalog can be asked about, and the two aggregate counters exist.
\<close>

definition countable_agent :: "sim \<Rightarrow> agent \<Rightarrow> bool" where
  "countable_agent s a =
     (case getState s a of Inr (Own c) \<Rightarrow> True | Inr Inherited \<Rightarrow> True | _ \<Rightarrow> False)"

definition can_count :: "sim \<Rightarrow> bool" where
  "can_count s =
     (list_all (countable_agent s) (agents s) \<and>
      ''infections'' \<in> set (map fst (counters s)) \<and>
      ''alive'' \<in> set (map fst (counters s)))"

definition add_num :: "nat \<Rightarrow> counter \<Rightarrow> counter" where
  "add_num n c = c\<lparr>num := num c + n\<rparr>"

text \<open>The last agent is removed (the population target was lowered) and the metrics are recomputed.\<close>

definition shrink_and_recount :: "world \<Rightarrow> error + world" where
  "shrink_and_recount w = eventCalcResults (fst w, removeAgents 1 (snd w))"

subsection \<open>Runs of the AFTER phase\<close>

text \<open>
  With the default AFTER events each run of the AFTER phase appends, for each cluster, one
  row that starts with the marker \<^verbatim>\<open>"E"\<close>.
\<close>

definition after_rows :: "sim \<Rightarrow> nat" where
  "after_rows s = length (filter (\<lambda>row. take 1 row = [CStr ''E'']) (results s))"

definition default_afterEvents :: "cluster \<Rightarrow> bool" where
  "default_afterEvents cl = (afterEvents cl = [EventCalcResults, EventRecordResult])"

text \<open>A simulation without agents that completes after one iteration.\<close>

definition world_stop :: world where
  "world_stop = (sconst 0.5, processOptions (no_options\<lparr>opt_maxIterations := Some 1\<rparr>))"

subsection \<open>Clusters whose initial-ratio weights sum to zero\<close>

text \<open>
  A catalog of nonnegative weights whose total, as \<^verbatim>\<open>calcInitialRatios\<close> adds it up, is
  zero.
\<close>

definition nonneg_weight :: "compartment \<Rightarrow> bool" where
  "nonneg_weight c = (case initialRatio c of Num w \<Rightarrow> 0 \<le> w | _ \<Rightarrow> False)"

definition zero_total :: "catalog \<Rightarrow> bool" where
  "zero_total sts = (list_all (\<lambda>(state, c). nonneg_weight c) sts \<and> ratio_total sts = Num 0)"

definition proportions_NaN :: "cluster \<Rightarrow> bool" where
  "proportions_NaN cl =
     list_all (\<lambda>(state, c). initial_proportion c = Some NaN) (cluster_states cl)"

text \<open>
  \<open>left_unassigned ci ags ags'\<close> compares two agent arrays position by position: every
  agent is still in its cluster, and the agents of cluster \<open>ci\<close> are as they were.
\<close>

definition left_unassigned :: "nat \<Rightarrow> agent list \<Rightarrow> agent list \<Rightarrow> bool" where
  "left_unassigned ci ags ags' =
     list_all2 (\<lambda>a a'. agent_cluster a' = agent_cluster a \<and> (agent_cluster a = ci \<longrightarrow> a' = a))
       ags ags'"

text \<open>
  The first three steps of \<^verbatim>\<open>initialize\<close> (create the agents, compute the proportions,
  assign the initial compartments), and a simulation of \<open>n\<close> agents on which
  \<^verbatim>\<open>clearAllInitialRatios\<close> has been called.
\<close>

definition assign_only :: "world \<Rightarrow> error + world" where
  "assign_only w =
     and_then (createAgents w) (\<lambda>w1. calcInitialStates 0 None (fst w1, calcInitialRatios (snd w1)))"

definition world_zero :: "nat \<Rightarrow> error + world" where
  "world_zero n =
     observe (Pair (sconst 0.5))
       (clearAllInitialRatios (processOptions (no_options\<lparr>opt_numAgents := Some n\<rparr>)))"

text \<open>
  Two clusters of one agent each; the four nonzero weights of cluster 0 are set to zero
  (\<^verbatim>\<open>setInitialRatio\<close> addresses cluster 0), cluster 1 keeps the default weights. The
  agents are created; every draw is 0.5.
\<close>

definition world_two :: "error + world" where
  "world_two =
     and_then
       (for_each (\<lambda>state. setInitialRatio state (Num 0))
          [''SUSCEPTIBLE'', ''INFECTED_EXPOSED'', ''INFECTED_ASYMPTOMATIC'',
           ''INFECTED_SYMPTOMATIC'']
          (processOptions (no_options\<lparr>opt_numAgents := Some 1,
                                        opt_clusters := Some [no_spec, no_spec]\<rparr>)))
       (\<lambda>s. createAgents (sconst 0.5, s))"

subsection \<open>Histories that only grow\<close>

text \<open>
  \<open>appended Q a a'\<close>: the history of \<open>a'\<close> is the history of \<open>a\<close> followed by entries
  that all satisfy \<open>Q\<close>. \<open>histories_extend\<close> compares two agent arrays position by
  position: each earlier history is a prefix of the later one (so the arrays have the same
  length, and no entry was removed or rewritten).
\<close>

definition appended :: "(marker \<times> string \<Rightarrow> bool) \<Rightarrow> agent \<Rightarrow> agent \<Rightarrow> bool" where
  "appended Q a a' =
     (take (length (states a)) (states a') = states a \<and>
      length (states a) \<le> length (states a') \<and>
      list_all Q (drop (length (states a)) (states a')))"

definition exposed_entry :: "marker \<times> string \<Rightarrow> bool" where
  "exposed_entry e = (snd e = ''INFECTED_EXPOSED'')"

definition any_entry :: "marker \<times> string \<Rightarrow> bool" where
  "any_entry e = True"

definition histories_extend :: "agent list \<Rightarrow> agent list \<Rightarrow> bool" where
  "histories_extend ags ags' = list_all2 (\<lambda>a a'. prefix (states a) (states a')) ags ags'"

text \<open>
  \<open>keeps_current a a'\<close>: if the earlier history was non-empty, the later one is non-empty
  and \<^verbatim>\<open>getStateKey\<close> returns the compartment of its last entry.
\<close>

definition keeps_current :: "agent \<Rightarrow> agent \<Rightarrow> bool" where
  "keeps_current a a' =
     (states a = [] \<or> (states a' \<noteq> [] \<and> getStateKey a' = Inr (snd (last (states a')))))"

definition current_compartments :: "world \<Rightarrow> (error + string) list" where
  "current_compartments w = map getStateKey (agents (snd w))"

text \<open>
  What the motion and transition events leave alone: they only consume draws, they do not
  touch the clusters or the iteration counter, they keep the counter names and change no
  counter but \<^verbatim>\<open>total_simulation_infections\<close>, and they only append to histories.
\<close>

definition evolves :: "(marker \<times> string \<Rightarrow> bool) \<Rightarrow> world \<Rightarrow> world \<Rightarrow> bool" where
  "evolves Q w w' =
     (sset (fst w') \<subseteq> sset (fst w) \<and>
      clusters (snd w') = clusters (snd w) \<and>
      iteration (snd w') = iteration (snd w) \<and>
      map fst (counters (snd w')) = map fst (counters (snd w)) \<and>
      (\<forall>k. k \<noteq> ''total_simulation_infections'' \<longrightarrow>
           map_of (counters (snd w')) k = map_of (counters (snd w)) k) \<and>
      list_all2 (appended Q) (agents (snd w)) (agents (snd w')))"

definition grows :: "world \<Rightarrow> world \<Rightarrow> bool" where
  "grows w w' = list_all2 (appended any_entry) (agents (snd w)) (agents (snd w'))"

definition advanced :: "real stream \<times> agent \<Rightarrow> real stream \<times> agent \<Rightarrow> bool" where
  "advanced ra ra' = (sset (fst ra') \<subseteq> sset (fst ra) \<and> appended any_entry (snd ra) (snd ra'))"

text \<open>
  The engine's operations on a simulation that has its agents: the lifecycle calls, a single
  event, and the assignment of initial compartments to a range of agents.
\<close>

datatype operation =
  OpStep | OpPlay | OpPause | OpStop | OpIteration | OpEvent event
| OpCalcInitialStates nat "nat option"

fun run_operation :: "operation \<Rightarrow> world \<Rightarrow> error + world" where
  "run_operation OpStep w = step w"
| "run_operation OpPlay w = play w"
| "run_operation OpPause w = Inr (pause w)"
| "run_operation OpStop w = stop w"
| "run_operation OpIteration w = oneIteration w"
| "run_operation (OpEvent e) w = run_event e w"
| "run_operation (OpCalcInitialStates from to) w = calcInitialStates from to w"

text \<open>A simulation of one agent, before \<^verbatim>\<open>initialize\<close>.\<close>

definition world_new :: world where
  "world_new = (sconst 0.5, processOptions (no_options\<lparr>opt_numAgents := Some 1\<rparr>))"

subsection \<open>The SYMPTOMATIC to RECOVERED scenario\<close>


















subsection \<open>Sequences of calls\<close>

text \<open>
  What a caller can do with a constructed simulation: \<^verbatim>\<open>initialize\<close>, the operations
  above, the methods that create and remove agents, \<^verbatim>\<open>calcInitialRatios\<close>, and the
  catalog setters.
\<close>

datatype call =
  CallInitialize
| CallOperation operation
| CallCreateAgents
| CallGenerateAgents nat "nat option"
| CallRemoveAgents nat
| CallCalcInitialRatios
| CallSetInitialRatio string jsnum
| CallSetInitialRatios "(string \<times> jsnum) list"
| CallClearAllInitialRatios
| CallSetInfectiousness string jsnum
| CallSetClusterTransitions nat "(string \<times> string \<times> jsnum) list"
| CallSetTransitions "(string \<times> string \<times> jsnum) list"

fun run_call :: "call \<Rightarrow> world \<Rightarrow> error + world" where
  "run_call CallInitialize w = initialize w"
| "run_call (CallOperation op) w = run_operation op w"
| "run_call CallCreateAgents w = createAgents w"
| "run_call (CallGenerateAgents n cl) w = generateAgents n cl w"
| "run_call (CallRemoveAgents n) w = Inr (fst w, removeAgents n (snd w))"
| "run_call CallCalcInitialRatios w = Inr (fst w, calcInitialRatios (snd w))"
| "run_call (CallSetInitialRatio state val) w = on_sim (setInitialRatio state val) w"
| "run_call (CallSetInitialRatios arr) w = on_sim (setInitialRatios arr) w"
| "run_call CallClearAllInitialRatios w = on_sim clearAllInitialRatios w"
| "run_call (CallSetInfectiousness state val) w = on_sim (setInfectiousness state val) w"
| "run_call (CallSetClusterTransitions ci arr) w = on_sim (setClusterTransitions ci arr) w"
| "run_call (CallSetTransitions arr) w = on_sim (setTransitions arr) w"

definition run_calls :: "call list \<Rightarrow> world \<Rightarrow> error + world" where
  "run_calls cs w = for_each run_call cs w"

text \<open>The velocity of an agent, and worlds with the same configuration object.\<close>

definition velocity :: "agent \<Rightarrow> real \<times> real" where
  "velocity a = (agent_dx a, agent_dy a)"

definition same_config :: "world \<Rightarrow> world \<Rightarrow> bool" where
  "same_config w w' = (config (snd w') = config (snd w))"

text \<open>
  Two agents, constructed with \<^verbatim>\<open>elasticCollisions: false\<close>. Both are placed at
  (160, 160); agent 0 draws direction index 4, velocity (0, 1), agent 1 draws index 0,
  velocity (-1, -1); both become SUSCEPTIBLE (0.1).
\<close>

definition draws_elastic :: "real stream" where
  "draws_elastic = 0.5 ## 0.5 ## 0.5 ## 0.5 ## 0.5 ## 0 ## 0.1 ## 0.1 ## sconst 0.9"

definition options_inelastic :: options where
  "options_inelastic = no_options\<lparr>opt_numAgents := Some 2, opt_elasticCollisions := Some False\<rparr>"

section \<open>Properties\<close>

subsection \<open>Evaluation\<close>

lemmas engine_defs =
  and_then_def on_sim_def observe_def agent_histories_def agent_motion_def collision_view_def
  randomness_view_def counter_value_def counter_values_def result_markers_def
  proportions_def transitions_of_def
  initialize_def processOptions_def no_options_def process_clusters_def apply_spec_def
  js_or_real_def js_or_nat_def js_or_array_def js_or_bool_def ifElse_def
  js_lt_opt_def js_gt0_opt_def js_get_def js_in_def object_prototype_names_def js_incr_def
  generateAgents_def Agent_def js_index_def setDirection_def DIRECTION_def correctPosition_def
  calcInitialRatios_def ratio_total_def calcInitialStates_def
  SimulationStates_def mk_state_def initial_counters_def
  getStateKey_def getState_def getInfectiousness_def cluster_of_def
  distanceSquared_def detectCollision_def counter_incr_def push_state_def swap_velocity_def
  detectInfections_def reflect_def eventMoveAgents_def eventAdvanceAgents_def
  reset_counters_def bump_state_counter_def js_infected_def calc_agent_def phase_cell_def
  runEvents_def stop_def removeAgents_def
  on_cluster_def setInitialRatio_def setInitialRatios_def setInfectiousness_def
  setClusterTransitions_def setTransitions_def clearAllInitialRatios_def
  setClusterInitialRatio_def setClusterStateInfectiousness_def setClusterTransition_def
  js_not_string_def Let_def upt_conv_Cons


lemmas run_defs =
  draws_cascade_def world_cascade_def draws_redirect_def world_redirect_def
  draws_dead_def world_dead_def

subsection \<open>Loops\<close>

lemma for_each_invariant:
  assumes "for_each f xs st = Inr st'" and "I st"
    and "\<And>x st st'. x \<in> set xs \<Longrightarrow> I st \<Longrightarrow> f x st = Inr st' \<Longrightarrow> I st'"
  shows "I st'"
  using assms
proof (induction xs arbitrary: st)
  case Nil
  then show ?case by simp
next
  case (Cons x xs)
  from Cons.prems(1) obtain st1 where 1: "f x st = Inr st1" and 2: "for_each f xs st1 = Inr st'"
    by (auto split: sum.splits)
  from Cons.prems(3)[OF _ Cons.prems(2) 1] have "I st1" by simp
  show ?case
    by (rule Cons.IH[OF 2 \<open>I st1\<close>]) (use Cons.prems(3) in auto)
qed

lemma for_each_related:
  assumes "for_each f xs st = Inr st'"
    and "\<And>x st st'. x \<in> set xs \<Longrightarrow> f x st = Inr st' \<Longrightarrow> R st st'"
    and "\<And>st. R st st" and "\<And>a b c. R a b \<Longrightarrow> R b c \<Longrightarrow> R a c"
  shows "R st st'"
proof -
  have "R st st'"
    by (rule for_each_invariant[OF assms(1), of "R st"]) (use assms(2,3,4) in blast)+
  then show ?thesis .
qed

lemma for_each_returns:
  assumes "I st"
    and "\<And>x st. x \<in> set xs \<Longrightarrow> I st \<Longrightarrow> \<exists>st'. f x st = Inr st' \<and> I st'"
  shows "\<exists>st'. for_each f xs st = Inr st' \<and> I st'"
  using assms
proof (induction xs arbitrary: st)
  case Nil
  then show ?case by simp
next
  case (Cons x xs)
  from Cons.prems(2)[of x st] Cons.prems(1) obtain st1 where 1: "f x st = Inr st1" "I st1"
    by auto
  have "\<exists>st'. for_each f xs st1 = Inr st' \<and> I st'"
    by (rule Cons.IH[OF 1(2)]) (use Cons.prems(2) in auto)
  with 1 show ?case by simp
qed

subsection \<open>The transition event\<close>

text \<open>
  Claim C1 (at most one compartment transition per agent per DURING tick) fails on the
  code. In \<^verbatim>\<open>eventAdvanceAgents\<close> the \<^verbatim>\<open>break\<close> leaves the loop over the outgoing
  transitions, not the loop over the catalog, and the test of that loop asks for the
  agent's current compartment again. An agent that moves to a compartment listed later in
  the catalog is advanced again in the same tick: here an INFECTED_EXPOSED agent gets two
  history entries with the marker of one tick.
\<close>

theorem eventAdvanceAgents_two_transitions_in_one_tick:
  "observe agent_histories world_cascade = Inr [[(MarkS, ''INFECTED_EXPOSED'')]] \<and>
   observe agent_histories (and_then world_cascade step) =
     Inr [[(MarkS, ''INFECTED_EXPOSED''), (Iter 0, ''INFECTED_ASYMPTOMATIC''),
           (Iter 0, ''INFECTED_SYMPTOMATIC'')]]"
  by (simp add: run_defs engine_defs)

subsection \<open>The catalog setters\<close>

text \<open>
  Claim C3 (every setter throws a configuration error on an unknown compartment name and
  leaves the catalog unchanged) fails on the code for \<^verbatim>\<open>setClusterTransition\<close>. With a
  known from-state and an unknown to-state nothing is thrown and the catalog gains a
  transition to the unknown name; with an unknown from-state the guard does not fire
  either, and what is thrown is the runtime's TypeError.
\<close>

theorem setClusterTransition_unknown_state_not_rejected:
  "js_in ''NO_SUCH_STATE'' SimulationStates = False \<and>
   observe (transitions_of ''SUSCEPTIBLE'')
     (setClusterTransition SimulationStates ''SUSCEPTIBLE'' ''NO_SUCH_STATE'' (Num 0.5)) =
     Inr (Some [(''VACCINATED'', Num 0.0025), (''NO_SUCH_STATE'', Num 0.5)]) \<and>
   setClusterTransition SimulationStates ''NO_SUCH_STATE'' ''DEAD'' (Num 0.5) = Inl TypeError"
  by (simp add: engine_defs)

subsection \<open>Movement randomness\<close>

text \<open>
  Claim C6 (a draw against the configured movement randomness decides whether the agent
  picks a new velocity; with positive movement randomness the branch is reachable) fails
  on the code. The constructor stores the sampler under \<^verbatim>\<open>movementRandomness\<close>;
  \<^verbatim>\<open>move\<close> compares the draw with \<^verbatim>\<open>movement_randomness\<close>, which is \<^verbatim>\<open>undefined\<close>. With
  mean 1 and a draw of 0 the agent keeps its velocity (0, 1) and moves from (160, 160) to
  (160, 161).
\<close>

theorem move_never_redirects:
  "observe randomness_view world_redirect = Inr [((1, 0), None)] \<and>
   observe agent_motion world_redirect = Inr [((160, 160), (0, 1))] \<and>
   observe agent_motion (and_then world_redirect step) = Inr [((160, 161), (0, 1))]"
  by (simp add: run_defs engine_defs)

subsection \<open>Dead agents\<close>

text \<open>
  Claim C8 (a DEAD agent is excluded from collision detection: it is never a member of a
  detected colliding pair) fails on the code. \<^verbatim>\<open>eventMoveAgents\<close> and \<^verbatim>\<open>move\<close> skip a
  DEAD agent, but \<^verbatim>\<open>detectInfections\<close> of a live agent loops over all agents. Here the
  live agent 0 and the DEAD agent 1 overlap: the collision is detected (the collision
  count is written) and the two velocities are swapped, so the DEAD agent's velocity
  changes from (-1, -1) to (0, 1). Its position and its history stay as they were.
\<close>

theorem dead_agent_in_colliding_pair:
  "observe collision_view world_dead =
     Inr ([[(MarkS, ''SUSCEPTIBLE'')], [(MarkS, ''DEAD'')]],
          [((160, 160), (0, 1)), ((160, 160), (-1, -1))], None) \<and>
   observe collision_view (and_then world_dead step) =
     Inr ([[(MarkS, ''SUSCEPTIBLE'')], [(MarkS, ''DEAD'')]],
          [((159, 159), (-1, -1)), ((160, 160), (0, 1))], Some NaN)"
  by (simp add: run_defs engine_defs)

subsection \<open>The metrics pass\<close>

lemma map_of_obj_set: "map_of (obj_set k v kvs) k' = (if k' = k then Some v else map_of kvs k')"
  by (induction kvs) auto

lemma keys_obj_set: "map_of kvs k = Some c \<Longrightarrow> map fst (obj_set k v kvs) = map fst kvs"
  by (induction kvs) (auto split: if_splits)

lemma add_num_0 [simp]: "map_option (add_num 0) x = x"
  by (cases x) (auto simp: add_num_def)

lemma counter_incr_effect:
  assumes "counter_incr k cs = Inr cs'"
  shows "map fst cs' = map fst cs \<and>
         map_of cs' k' = map_option (add_num (if k' = k then 1 else 0)) (map_of cs k')"
  using assms
  by (auto simp: counter_incr_def add_num_def map_of_obj_set keys_obj_set split: option.splits)

lemma bump_state_counter_effect:
  "map fst (bump_state_counter k cs) = map fst cs \<and>
   map_of (bump_state_counter k cs) k' =
     map_option (add_num (if k' = k then 1 else 0)) (map_of cs k')"
  by (auto simp: bump_state_counter_def js_in_def js_get_def add_num_def map_of_obj_set
        keys_obj_set split: option.splits)

lemma add_num_add: "map_option (add_num m) (map_option (add_num n) x) = map_option (add_num (n + m)) x"
  by (cases x) (auto simp: add_num_def)

lemma calc_agent_effect:
  assumes "calc_agent s a cs = Inr cs'"
  shows "map fst cs' = map fst cs \<and>
         map_of cs' k = map_option (add_num (agent_tally s k a)) (map_of cs k)"
proof -
  from assms obtain state p where st: "getStateKey a = Inr state" and gp: "getState s a = Inr p"
    and pm: "p \<noteq> Missing"
    by (auto simp: calc_agent_def split: sum.splits js_prop.splits)
  define cs1 where "cs1 = bump_state_counter state cs"
  from assms st gp pm have
    "(case (if js_infected p then counter_incr ''infections'' cs1 else Inr cs1) of
        Inl e \<Rightarrow> Inl e
      | Inr cs2 \<Rightarrow> if state \<noteq> ''DEAD'' then counter_incr ''alive'' cs2 else Inr cs2) = Inr cs'"
    by (cases p) (simp_all add: calc_agent_def cs1_def split del: if_split cong: if_cong)
  then obtain cs2 where
    c2: "(if js_infected p then counter_incr ''infections'' cs1 else Inr cs1) = Inr cs2"
    and c3: "(if state \<noteq> ''DEAD'' then counter_incr ''alive'' cs2 else Inr cs2) = Inr cs'"
    by (cases "if js_infected p then counter_incr ''infections'' cs1 else Inr cs1") simp_all
  have e1: "map fst cs1 = map fst cs"
    "map_of cs1 k = map_option (add_num (if k = state then 1 else 0)) (map_of cs k)"
    using bump_state_counter_effect[of state cs k] by (simp_all add: cs1_def)
  have e2: "map fst cs2 = map fst cs1 \<and>
    map_of cs2 k = map_option (add_num (if k = ''infections'' \<and> js_infected p then 1 else 0)) (map_of cs1 k)"
    using c2 counter_incr_effect[of "''infections''" cs1 cs2 k]
    by (cases "map_of cs1 k") (auto simp: add_num_def split: if_splits)
  have e3: "map fst cs' = map fst cs2 \<and>
    map_of cs' k = map_option (add_num (if k = ''alive'' \<and> state \<noteq> ''DEAD'' then 1 else 0)) (map_of cs2 k)"
    using c3 counter_incr_effect[of "''alive''" cs2 cs' k]
    by (cases "map_of cs2 k") (auto simp: add_num_def split: if_splits)
  have t: "agent_tally s k a = (if k = state then 1 else 0) +
     (if k = ''infections'' \<and> js_infected p then 1 else 0) +
     (if k = ''alive'' \<and> state \<noteq> ''DEAD'' then 1 else 0)"
    using st gp by (auto simp: agent_tally_def observe_def)
  show ?thesis using e1 e2 e3 by (simp add: add_num_add t)
qed

lemma calc_loop_effect:
  assumes "for_each (calc_agent s) ags cs = Inr cs'"
  shows "map fst cs' = map fst cs \<and>
         map_of cs' k = map_option (add_num (tally s k ags)) (map_of cs k)"
  using assms
proof (induction ags arbitrary: cs)
  case Nil
  then show ?case by (cases "map_of cs k") (simp_all add: tally_def add_num_def)
next
  case (Cons a ags)
  from Cons.prems obtain cs1 where a: "calc_agent s a cs = Inr cs1"
    and r: "for_each (calc_agent s) ags cs1 = Inr cs'"
    by (auto split: sum.splits)
  from calc_agent_effect[OF a, of k] Cons.IH[OF r] show ?case
    by (simp add: add_num_add tally_def)
qed

lemma map_of_reset_counters:
  "map_of (reset_counters cs) k =
     map_option (\<lambda>c. if take 6 k \<noteq> ''total_'' then c\<lparr>num := 0\<rparr> else c) (map_of cs k)"
  by (induction cs) (auto simp: reset_counters_def)

lemma keys_reset_counters: "map fst (reset_counters cs) = map fst cs"
  by (induction cs) (auto simp: reset_counters_def)

lemma tally_zero:
  assumes "list_all (\<lambda>a. getStateKey a \<noteq> Inr k) ags" and "k \<noteq> ''infections''" and "k \<noteq> ''alive''"
  shows "tally s k ags = 0"
  using assms by (induction ags) (auto simp: tally_def agent_tally_def split: sum.splits)

lemma eventCalcResults_effect:
  assumes "eventCalcResults (rnd, s) = Inr (rnd', s')"
  shows "rnd' = rnd \<and> agents s' = agents s \<and> map fst (counters s') = map fst (counters s) \<and>
         counter_value k s' =
           map_option (\<lambda>n. (if take 6 k = ''total_'' then n else 0) + tally s k (agents s))
             (counter_value k s) \<and>
         (take 6 k = ''total_'' \<and> list_all (\<lambda>a. getStateKey a \<noteq> Inr k) (agents s)
            \<longrightarrow> counter_value k s' = counter_value k s)"
proof -
  from assms obtain cs where l: "for_each (calc_agent s) (agents s) (reset_counters (counters s)) = Inr cs"
    and s': "s' = s\<lparr>counters := cs\<rparr>" and r: "rnd' = rnd"
    by (auto split: sum.splits)
  note e = calc_loop_effect[OF l, of k]
  have v: "counter_value k s' =
           map_option (\<lambda>n. (if take 6 k = ''total_'' then n else 0) + tally s k (agents s))
             (counter_value k s)"
    using e by (cases "map_of (counters s) k")
      (auto simp: counter_value_def s' map_of_reset_counters add_num_def)
  have z: "counter_value k s' = counter_value k s"
    if "take 6 k = ''total_''" "list_all (\<lambda>a. getStateKey a \<noteq> Inr k) (agents s)"
  proof -
    from that(1) have "k \<noteq> ''infections''" "k \<noteq> ''alive''" by auto
    from tally_zero[OF that(2) this] v that(1) show ?thesis
      by (cases "counter_value k s") simp_all
  qed
  from e v z r show ?thesis by (simp add: s' keys_reset_counters)
qed

lemma map_of_member: "map_of cs k \<noteq> None \<longleftrightarrow> k \<in> set (map fst cs)"
  by (induction cs) auto

lemma counter_incr_returns:
  assumes "k \<in> set (map fst cs)"
  shows "\<exists>cs'. counter_incr k cs = Inr cs'"
  using assms map_of_member[of cs k] by (auto simp: counter_incr_def split: option.splits)

lemma calc_agent_returns:
  assumes "countable_agent s a" and "''infections'' \<in> set (map fst cs)"
    and "''alive'' \<in> set (map fst cs)"
  shows "\<exists>cs'. calc_agent s a cs = Inr cs'"
proof -
  from assms(1) obtain p where gp: "getState s a = Inr p" and pm: "p \<noteq> Missing"
    by (auto simp: countable_agent_def split: sum.splits js_prop.splits)
  then obtain state where st: "getStateKey a = Inr state"
    by (auto simp: getState_def split: option.splits sum.splits)
  define cs1 where "cs1 = bump_state_counter state cs"
  have k1: "map fst cs1 = map fst cs"
    using bump_state_counter_effect[of state cs] by (simp add: cs1_def)
  obtain cs2 where c2: "(if js_infected p then counter_incr ''infections'' cs1 else Inr cs1) = Inr cs2"
    using counter_incr_returns[of "''infections''" cs1] assms(2) k1 by (cases "js_infected p") auto
  have k2: "map fst cs2 = map fst cs"
    using c2 k1 counter_incr_effect[of "''infections''" cs1 cs2] by (auto split: if_splits)
  obtain cs3 where c3: "(if state \<noteq> ''DEAD'' then counter_incr ''alive'' cs2 else Inr cs2) = Inr cs3"
    using counter_incr_returns[of "''alive''" cs2] assms(3) k2 by (cases "state \<noteq> ''DEAD''") auto
  from st gp pm c2 c3 have "calc_agent s a cs = Inr cs3"
    by (cases p) (simp_all add: calc_agent_def cs1_def split del: if_split cong: if_cong)
  then show ?thesis ..
qed

lemma calc_loop_returns:
  assumes "list_all (countable_agent s) ags" and "''infections'' \<in> set (map fst cs)"
    and "''alive'' \<in> set (map fst cs)"
  shows "\<exists>cs'. for_each (calc_agent s) ags cs = Inr cs'"
  using assms
proof (induction ags arbitrary: cs)
  case Nil
  then show ?case by simp
next
  case (Cons a ags)
  from calc_agent_returns[of s a cs] Cons.prems obtain cs1 where 1: "calc_agent s a cs = Inr cs1"
    by auto
  from calc_agent_effect[OF 1] have "map fst cs1 = map fst cs" by simp
  with Cons.IH[of cs1] Cons.prems 1 show ?case by simp
qed

lemma eventCalcResults_returns:
  assumes "can_count s"
  shows "\<exists>s'. eventCalcResults (rnd, s) = Inr (rnd, s')"
proof -
  from calc_loop_returns[of s "agents s" "reset_counters (counters s)"] assms
  obtain cs where "for_each (calc_agent s) (agents s) (reset_counters (counters s)) = Inr cs"
    by (auto simp: can_count_def keys_reset_counters)
  then show ?thesis by simp
qed

lemma can_count_frame:
  assumes "can_count s" and "agents s' = agents s" and "clusters s' = clusters s"
    and "map fst (counters s') = map fst (counters s)"
  shows "can_count s'"
proof -
  have "countable_agent s' a = countable_agent s a" for a
    using assms(3) by (simp add: countable_agent_def getState_def cluster_of_def)
  with assms show ?thesis by (simp add: can_count_def list_all_iff)
qed


text \<open>
  Claim C2 as amended: a metrics pass never resets the two counters whose names start with
  \<^verbatim>\<open>total_\<close> (\<^verbatim>\<open>total_initial_infections\<close>, \<^verbatim>\<open>total_simulation_infections\<close>); it resets
  \<^verbatim>\<open>alive\<close>, \<^verbatim>\<open>infections\<close> and every per-compartment counter to zero and rebuilds
  them in one scan over all agents. The pass completes whenever every agent has a current
  compartment its catalog can be asked about; afterwards a counter holds what it held (if
  its name starts with \<^verbatim>\<open>total_\<close>) or zero (otherwise), plus what the scan tallies for
  its name, and a \<^verbatim>\<open>total_\<close> counter is unchanged when no agent's compartment carries
  its name.
\<close>

theorem eventCalcResults_recounts:
  assumes "can_count s"
  shows "\<exists>s'. eventCalcResults (rnd, s) = Inr (rnd, s') \<and> agents s' = agents s \<and>
           map fst (counters s') = map fst (counters s) \<and>
           (\<forall>k. counter_value k s' =
                  map_option (\<lambda>n. (if take 6 k = ''total_'' then n else 0) + tally s k (agents s))
                    (counter_value k s)) \<and>
           (\<forall>k. take 6 k = ''total_'' \<and> list_all (\<lambda>a. getStateKey a \<noteq> Inr k) (agents s)
                  \<longrightarrow> counter_value k s' = counter_value k s)"
proof -
  from eventCalcResults_returns[OF assms] obtain s' where
    r: "eventCalcResults (rnd, s) = Inr (rnd, s')" by blast
  from eventCalcResults_effect[OF r] r show ?thesis by blast
qed

theorem eventCalcResults_recounts_witness:
  "\<exists>w'. and_then world_cascade eventCalcResults = Inr w' \<and>
         counter_values [''alive'', ''infections'', ''INFECTED_EXPOSED'', ''SUSCEPTIBLE'',
                         ''total_initial_infections''] w' =
           [Some 1, Some 1, Some 1, Some 0, Some 1]"
proof -
  define w0 where "w0 = projr world_cascade"
  have e0: "world_cascade = Inr w0"
    and cc: "can_count (snd w0)"
    and a: "map states (agents (snd w0)) = [[(MarkS, ''INFECTED_EXPOSED'')]]"
    and c: "counter_values [''alive'', ''infections'', ''INFECTED_EXPOSED'', ''SUSCEPTIBLE'',
                         ''total_initial_infections''] w0 = [Some 1, Some 1, Some 1, Some 0, Some 1]"
    and t: "map (\<lambda>k. tally (snd w0) k (agents (snd w0)))
              [''alive'', ''infections'', ''INFECTED_EXPOSED'', ''SUSCEPTIBLE''] = [1, 1, 1, 0]"
    unfolding w0_def
    by (simp_all add: can_count_def countable_agent_def tally_def agent_tally_def
          run_defs engine_defs)
  from a have n: "list_all (\<lambda>a. getStateKey a \<noteq> Inr ''total_initial_infections'') (agents (snd w0))"
    by (auto simp: getStateKey_def)
  from eventCalcResults_recounts[OF cc, of "fst w0"] obtain s' where
    r: "eventCalcResults (fst w0, snd w0) = Inr (fst w0, s')"
    and v: "\<And>k. counter_value k s' =
                  map_option (\<lambda>n. (if take 6 k = ''total_'' then n else 0) +
                                   tally (snd w0) k (agents (snd w0)))
                    (counter_value k (snd w0))"
    and z: "\<And>k. take 6 k = ''total_'' \<and>
                list_all (\<lambda>a. getStateKey a \<noteq> Inr k) (agents (snd w0))
                  \<longrightarrow> counter_value k s' = counter_value k (snd w0)"
    by blast
  from v[of "''alive''"] v[of "''infections''"] v[of "''INFECTED_EXPOSED''"]
       v[of "''SUSCEPTIBLE''"] z[of "''total_initial_infections''"] n c t
  have "counter_values [''alive'', ''infections'', ''INFECTED_EXPOSED'', ''SUSCEPTIBLE'',
                         ''total_initial_infections''] (fst w0, s') =
          [Some 1, Some 1, Some 1, Some 0, Some 1]"
    by (simp add: counter_values_def)
  moreover have "and_then world_cascade eventCalcResults = Inr (fst w0, s')"
    unfolding e0 and_then_def using r by simp
  ultimately show ?thesis by blast
qed

text \<open>
  Claim C2 as stated (\<^verbatim>\<open>alive\<close> and \<^verbatim>\<open>infections\<close> are cumulative and never reset)
  fails: with one living, infected agent both counters read 1 after initialization, still
  1 after a second pass, and 0 after the agent has been removed and a third pass has run.
\<close>

theorem alive_and_infections_are_reset:
  "observe (counter_values [''alive'', ''infections'']) world_cascade = Inr [Some 1, Some 1] \<and>
   observe (counter_values [''alive'', ''infections'']) (and_then world_cascade eventCalcResults) =
     Inr [Some 1, Some 1] \<and>
   observe (counter_values [''alive'', ''infections'']) (and_then world_cascade shrink_and_recount) =
     Inr [Some 0, Some 0]"
  by (simp add: shrink_and_recount_def run_defs engine_defs)


subsection \<open>Stopping\<close>

lemma eventCalcResults_frame:
  assumes "eventCalcResults (rnd, s) = Inr (rnd', s')"
  shows "rnd' = rnd \<and> s' = s\<lparr>counters := counters s'\<rparr>"
  using assms by (auto split: sum.splits)

lemma after_default_events:
  assumes "runEvents [EventCalcResults, EventRecordResult] (rnd, s) = Inr (rnd', s')"
    and "eventPhase s = AFTER"
  shows "after_rows s' = Suc (after_rows s) \<and> eventPhase s' = AFTER \<and>
         clusters s' = clusters s \<and> sim_state s' = sim_state s \<and> timer s' = timer s"
proof -
  from assms(1) obtain s1 where c: "eventCalcResults (rnd, s) = Inr (rnd, s1)"
    and r: "eventRecordResult (rnd, s1) = Inr (rnd', s')"
    by (auto simp: runEvents_def split: sum.splits dest: eventCalcResults_frame)
  from eventCalcResults_frame[OF c] have s1: "s1 = s\<lparr>counters := counters s1\<rparr>" by simp
  have ph: "eventPhase s1 = AFTER" "results s1 = results s" "clusters s1 = clusters s"
    "sim_state s1 = sim_state s" "timer s1 = timer s"
    using assms(2) by (subst s1, simp)+
  from r ph show ?thesis
    by (auto simp: after_rows_def phase_cell_def)
qed

lemma after_loop:
  assumes "for_each (\<lambda>cl. runEvents (afterEvents cl)) cls (rnd, s) = Inr (rnd', s')"
    and "list_all default_afterEvents cls"
    and "eventPhase s = AFTER"
  shows "after_rows s' = after_rows s + length cls \<and> clusters s' = clusters s \<and>
         sim_state s' = sim_state s \<and> timer s' = timer s"
  using assms
proof (induction cls arbitrary: rnd s)
  case Nil
  then show ?case by simp
next
  case (Cons cl cls)
  from Cons.prems(1,2) obtain rnd1 s1 where
    one: "runEvents [EventCalcResults, EventRecordResult] (rnd, s) = Inr (rnd1, s1)"
    and rest: "for_each (\<lambda>cl. runEvents (afterEvents cl)) cls (rnd1, s1) = Inr (rnd', s')"
    by (auto simp: default_afterEvents_def split: sum.splits)
  from after_default_events[OF one Cons.prems(3)] Cons.IH[OF rest] Cons.prems(2)
  show ?case by simp
qed

lemma stop_after_rows:
  assumes "stop (rnd, s) = Inr (rnd', s')" and "list_all default_afterEvents (clusters s)"
  shows "after_rows s' = after_rows s + length (clusters s) \<and> clusters s' = clusters s \<and>
         sim_state s' = PAUSED"
proof -
  define s0 where "s0 = snd (pause (rnd, s))"
  have p: "pause (rnd, s) = (rnd, s0)" "clusters s0 = clusters s" "results s0 = results s"
    "sim_state s0 = PAUSED"
    by (auto simp: s0_def)
  with assms(1) have "for_each (\<lambda>cl. runEvents (afterEvents cl)) (clusters s)
      (rnd, s0\<lparr>eventPhase := AFTER\<rparr>) = Inr (rnd', s')"
    by (simp add: stop_def)
  from after_loop[OF this assms(2)] p show ?thesis
    by (simp add: after_rows_def)
qed

lemma after_default_events_returns:
  assumes "can_count s"
  shows "\<exists>rnd' s'. runEvents [EventCalcResults, EventRecordResult] (rnd, s) = Inr (rnd', s') \<and>
                   can_count s'"
proof -
  from eventCalcResults_returns[OF assms] obtain s1 where
    c: "eventCalcResults (rnd, s) = Inr (rnd, s1)" by blast
  from eventCalcResults_frame[OF c] have s1: "s1 = s\<lparr>counters := counters s1\<rparr>" by simp
  from c obtain cs where l: "for_each (calc_agent s) (agents s) (reset_counters (counters s)) = Inr cs"
    and cs: "counters s1 = cs"
    by (auto split: sum.splits)
  have k: "map fst (counters s1) = map fst (counters s)"
    using calc_loop_effect[OF l] cs by (simp add: keys_reset_counters)
  have "agents s1 = agents s" "clusters s1 = clusters s" by (subst s1, simp)+
  from can_count_frame[OF assms this k] have c1: "can_count s1" .
  let ?s2 = "s1\<lparr>results := results s1 @
                   [phase_cell s1 # map (\<lambda>(key, c). CNum (num c)) (counters s1)]\<rparr>"
  have "can_count ?s2" by (rule can_count_frame[OF c1]) simp_all
  with c show ?thesis by (auto simp: runEvents_def)
qed

lemma after_loop_returns:
  assumes "list_all default_afterEvents cls" and "can_count s"
  shows "\<exists>w'. for_each (\<lambda>cl. runEvents (afterEvents cl)) cls (rnd, s) = Inr w' \<and>
              can_count (snd w')"
  using assms
proof (induction cls arbitrary: rnd s)
  case Nil
  then show ?case by simp
next
  case (Cons cl cls)
  from after_default_events_returns[OF Cons.prems(2), of rnd] obtain rnd1 s1 where
    1: "runEvents [EventCalcResults, EventRecordResult] (rnd, s) = Inr (rnd1, s1)"
    and c1: "can_count s1" by blast
  from Cons.IH[OF _ c1, of rnd1] Cons.prems(1) obtain w' where
    "for_each (\<lambda>cl. runEvents (afterEvents cl)) cls (rnd1, s1) = Inr w'" "can_count (snd w')"
    by auto
  with 1 Cons.prems(1) show ?case by (auto simp: default_afterEvents_def)
qed

lemma stop_returns:
  assumes "list_all default_afterEvents (clusters (snd w))" and "can_count (snd w)"
  shows "\<exists>w'. stop w = Inr w' \<and> can_count (snd w')"
proof -
  obtain rnd s where w: "w = (rnd, s)" by (cases w)
  define s0 where "s0 = (snd (pause (rnd, s)))\<lparr>eventPhase := AFTER\<rparr>"
  have p: "afterIteration (pause (rnd, s)) =
           for_each (\<lambda>cl. runEvents (afterEvents cl)) (clusters s) (rnd, s0)"
    by (auto simp: s0_def)
  from assms(2) w have "can_count s" by simp
  then have "can_count s0"
    by (rule can_count_frame) (simp_all add: s0_def)
  from after_loop_returns[OF _ this, of "clusters s" rnd] assms(1) w obtain w' where
    "for_each (\<lambda>cl. runEvents (afterEvents cl)) (clusters s) (rnd, s0) = Inr w'"
    "can_count (snd w')"
    by auto
  moreover have "stop w = for_each (\<lambda>cl. runEvents (afterEvents cl)) (clusters s) (rnd, s0)"
    by (simp only: stop_def w p)
  ultimately show ?thesis by auto
qed

text \<open>
  Claim C5 as amended: \<^verbatim>\<open>stop()\<close> is \<^verbatim>\<open>pause()\<close> followed by one run of the AFTER phase
  on every call; there is no guard, so a second call runs the AFTER phase again. With the
  default AFTER events, and agents whose metrics can be computed, each of two calls in a row
  completes, leaves the simulation PAUSED and appends one \<^verbatim>\<open>"E"\<close> row for each cluster.
\<close>

theorem stop_runs_after_phase_on_every_call:
  assumes "list_all default_afterEvents (clusters (snd w))" and "can_count (snd w)"
  shows "\<exists>w' w''. stop w = Inr w' \<and> stop w' = Inr w'' \<and>
           sim_state (snd w') = PAUSED \<and>
           after_rows (snd w') = after_rows (snd w) + length (clusters (snd w)) \<and>
           sim_state (snd w'') = PAUSED \<and>
           after_rows (snd w'') = after_rows (snd w') + length (clusters (snd w))"
proof -
  from stop_returns[OF assms] obtain w' where 1: "stop w = Inr w'" and c1: "can_count (snd w')"
    by blast
  from stop_after_rows[of "fst w" "snd w" "fst w'" "snd w'"] 1 assms(1)
  have e1: "after_rows (snd w') = after_rows (snd w) + length (clusters (snd w))"
    "clusters (snd w') = clusters (snd w)" "sim_state (snd w') = PAUSED"
    by simp_all
  from stop_returns[of w'] assms(1) c1 e1(2) obtain w'' where 2: "stop w' = Inr w''"
    by auto
  from stop_after_rows[of "fst w'" "snd w'" "fst w''" "snd w''"] 2 assms(1) e1(2)
  have e2: "after_rows (snd w'') = after_rows (snd w') + length (clusters (snd w))"
    "sim_state (snd w'') = PAUSED"
    by simp_all
  from 1 2 e1 e2 show ?thesis by blast
qed

theorem stop_runs_after_phase_on_every_call_witness:
  "\<exists>w' w''. stop world_stop = Inr w' \<and> stop w' = Inr w'' \<and>
            after_rows (snd world_stop) = 0 \<and> after_rows (snd w') = 1 \<and>
            after_rows (snd w'') = 2 \<and> sim_state (snd w'') = PAUSED"
proof -
  have h: "list_all default_afterEvents (clusters (snd world_stop))"
    and c: "can_count (snd world_stop)"
    and n: "length (clusters (snd world_stop)) = 1" "after_rows (snd world_stop) = 0"
    by (simp_all add: world_stop_def default_afterEvents_def after_rows_def can_count_def
          engine_defs)
  from stop_runs_after_phase_on_every_call[OF h c] obtain w' w'' where
    "stop world_stop = Inr w'" "stop w' = Inr w''"
    "after_rows (snd w') = after_rows (snd world_stop) + length (clusters (snd world_stop))"
    "after_rows (snd w'') = after_rows (snd w') + length (clusters (snd world_stop))"
    "sim_state (snd w'') = PAUSED"
    by blast
  with n show ?thesis
    by (intro exI[of _ w'] exI[of _ w'']) simp
qed

text \<open>
  Claim C5 as stated (a second \<^verbatim>\<open>stop()\<close> after completion does not run the AFTER phase
  again) fails: with a limit of one iteration, \<^verbatim>\<open>step()\<close> runs the tick and stops by
  itself (rows 0 and \<^verbatim>\<open>"E"\<close>); calling \<^verbatim>\<open>stop()\<close> then appends a second \<^verbatim>\<open>"E"\<close> row.
\<close>

theorem stop_twice_runs_after_phase_twice:
  "observe result_markers (step world_stop) = Inr [CNum 0, CStr ''E''] \<and>
   observe result_markers (and_then (step world_stop) stop) =
     Inr [CNum 0, CStr ''E'', CStr ''E'']"
  by (simp add: world_stop_def engine_defs)

subsection \<open>A zero total of initial ratios\<close>

lemma zero_total_all_zero_aux:
  assumes "list_all (\<lambda>(state, c). nonneg_weight c) sts" and "0 \<le> t"
    and "foldl (\<lambda>tot (state, c). js_add tot (initialRatio c)) (Num t) sts = Num 0"
  shows "t = 0 \<and> list_all (\<lambda>(state, c). initialRatio c = Num 0) sts"
  using assms
proof (induction sts arbitrary: t)
  case Nil
  then show ?case by simp
next
  case (Cons e sts)
  obtain k c where e: "e = (k, c)" by (cases e)
  from Cons.prems(1) e obtain w where w: "initialRatio c = Num w" "0 \<le> w"
    by (auto simp: nonneg_weight_def split: jsnum.splits)
  from Cons.prems e w have "t + w = 0 \<and> list_all (\<lambda>(state, c). initialRatio c = Num 0) sts"
    by (intro Cons.IH) auto
  with w Cons.prems(2) e show ?case by auto
qed

lemma zero_total_all_zero:
  "zero_total sts \<Longrightarrow> list_all (\<lambda>(state, c). initialRatio c = Num 0) sts"
  using zero_total_all_zero_aux[of sts 0] by (simp add: zero_total_def ratio_total_def)

lemma js_add_NaN [simp]: "js_add x NaN = NaN"
  by (cases x) simp_all

lemma cumulate_zero:
  assumes "list_all (\<lambda>(state, c). initialRatio c = Num 0) sts"
  shows "list_all (\<lambda>(state, c). initial_proportion c = Some NaN) (cumulate (Num 0) cum sts)"
  using assms by (induction sts arbitrary: cum) (auto simp: Let_def)

lemma find_NaN:
  assumes "list_all (\<lambda>(state, c). initial_proportion c = Some NaN) sts"
  shows "find (\<lambda>(state, c). js_lt_opt (Num r) (initial_proportion c)) sts = None"
  using assms by (induction sts) (auto simp: js_lt_opt_def)

lemma calcInitialRatios_cluster:
  assumes "ci < length (clusters s)" and "zero_total (cluster_states (clusters s ! ci))"
  shows "proportions_NaN (clusters (calcInitialRatios s) ! ci)"
proof -
  let ?sts = "cluster_states (clusters s ! ci)"
  from cumulate_zero[OF zero_total_all_zero[OF assms(2)], of "Num 0"] assms(2)
  have "list_all (\<lambda>(state, c). initial_proportion c = Some NaN)
          (cumulate (ratio_total ?sts) (Num 0) ?sts)"
    by (simp add: zero_total_def)
  with assms(1) show ?thesis by (simp add: proportions_NaN_def calcInitialRatios_def)
qed

lemma left_unassigned_refl [simp]: "left_unassigned ci ags ags"
  by (simp add: left_unassigned_def list_all2_refl)

lemma left_unassigned_update:
  assumes "left_unassigned ci ags ags'" and "i < length ags'"
    and "agent_cluster a' = agent_cluster (ags' ! i)" and "agent_cluster (ags' ! i) \<noteq> ci"
  shows "left_unassigned ci ags (ags'[i := a'])"
proof -
  from assms(1) have l: "length ags = length ags'"
    and p: "\<And>n. n < length ags \<Longrightarrow> agent_cluster (ags' ! n) = agent_cluster (ags ! n) \<and>
                 (agent_cluster (ags ! n) = ci \<longrightarrow> ags' ! n = ags ! n)"
    by (auto simp: left_unassigned_def list_all2_conv_all_nth)
  have "agent_cluster (ags'[i := a'] ! n) = agent_cluster (ags ! n) \<and>
        (agent_cluster (ags ! n) = ci \<longrightarrow> ags'[i := a'] ! n = ags ! n)" if "n < length ags" for n
    using that p[OF that] l assms(2,3,4) by (cases "n = i") auto
  with l show ?thesis by (simp add: left_unassigned_def list_all2_conv_all_nth)
qed

lemma initial_step_returns:
  assumes "clusters s1 = cls" and "ci < length cls" and "proportions_NaN (cls ! ci)"
    and "left_unassigned ci ags (agents s1)"
    and "list_all (\<lambda>a. agent_cluster a < length cls) ags"
    and "''total_initial_infections'' \<in> set (map fst (counters s1))"
    and "i < length ags"
  shows "\<exists>rnd' s2. initial_step i (rnd, s1) = Inr (rnd', s2) \<and> clusters s2 = cls \<and>
           left_unassigned ci ags (agents s2) \<and>
           ''total_initial_infections'' \<in> set (map fst (counters s2))"
proof -
  from assms(4) have l: "length ags = length (agents s1)"
    and c: "agent_cluster (agents s1 ! i) = agent_cluster (ags ! i)"
    and u: "agent_cluster (ags ! i) = ci \<Longrightarrow> agents s1 ! i = ags ! i"
    using assms(7) by (auto simp: left_unassigned_def list_all2_conv_all_nth)
  let ?a = "agents s1 ! i"
  let ?cl = "cls ! agent_cluster ?a"
  from assms(5,7) c have r: "agent_cluster ?a < length cls" by (simp add: list_all_length)
  have ix: "js_index (agents s1) (int i) = Some ?a"
    using assms(7) l by (simp add: js_index_def)
  have co: "cluster_of s1 ?a = Some ?cl"
    using r assms(1) by (simp add: cluster_of_def js_index_def)
  show ?thesis
  proof (cases "find (\<lambda>(state, c). js_lt_opt (Num (shd rnd)) (initial_proportion c))
                  (cluster_states ?cl)")
    case None
    with ix co assms(1,4,6) show ?thesis by simp
  next
    case (Some e)
    obtain state c where e: "e = (state, c)" by (cases e)
    have n: "agent_cluster ?a \<noteq> ci"
    proof
      assume "agent_cluster ?a = ci"
      with assms(3) have "list_all (\<lambda>(state, c). initial_proportion c = Some NaN)
                             (cluster_states ?cl)"
        by (simp add: proportions_NaN_def)
      from find_NaN[OF this, of "shd rnd"] Some show False by simp
    qed
    have lu: "left_unassigned ci ags ((agents s1)[i := push_state (MarkS, state) ?a])"
      using assms(7) l n by (intro left_unassigned_update[OF assms(4)]) (simp_all add: push_state_def)
    show ?thesis
    proof (cases "infected c")
      case False
      with ix co Some e lu assms(1,6) show ?thesis by (simp add: Let_def)
    next
      case True
      from counter_incr_returns[OF assms(6)] obtain cs where
        cs: "counter_incr ''total_initial_infections'' (counters s1) = Inr cs" by blast
      from counter_incr_effect[OF cs] assms(6)
      have "''total_initial_infections'' \<in> set (map fst cs)" by simp
      with True ix co Some e lu assms(1) cs show ?thesis by (simp add: Let_def)
    qed
  qed
qed

text \<open>
  Claim C4 as amended: the engine has no validation of the weights. For every cluster
  whose (nonnegative) initial-ratio weights sum to zero, in a simulation of any number of
  clusters, \<^verbatim>\<open>calcInitialRatios\<close> raises nothing and computes every cumulative proportion
  of that cluster as NaN (0/0), and \<^verbatim>\<open>calcInitialStates\<close> raises nothing and returns
  with every agent of that cluster as it was (it assigns no compartment to any of them),
  whatever it assigns to the agents of the other clusters. (Every agent belongs to a cluster of the
  simulation and the counter \<^verbatim>\<open>total_initial_infections\<close> exists, as after
  \<^verbatim>\<open>createAgents\<close>.)
\<close>

theorem zero_total_cluster_assigns_no_compartment:
  assumes "ci < length (clusters s)" and "zero_total (cluster_states (clusters s ! ci))"
    and "list_all (\<lambda>a. agent_cluster a < length (clusters s)) (agents s)"
    and "''total_initial_infections'' \<in> set (map fst (counters s))"
  shows "proportions_NaN (clusters (calcInitialRatios s) ! ci) \<and>
         (\<exists>w'. calcInitialStates 0 None (rnd, calcInitialRatios s) = Inr w' \<and>
               left_unassigned ci (agents s) (agents (snd w')))"
proof -
  let ?s = "calcInitialRatios s"
  let ?cls = "clusters ?s"
  let ?I = "\<lambda>w. clusters (snd w) = ?cls \<and> left_unassigned ci (agents s) (agents (snd w)) \<and>
                 ''total_initial_infections'' \<in> set (map fst (counters (snd w)))"
  have n: "proportions_NaN (?cls ! ci)" by (rule calcInitialRatios_cluster[OF assms(1,2)])
  have a: "agents ?s = agents s" "length ?cls = length (clusters s)" "counters ?s = counters s"
    by (simp_all add: calcInitialRatios_def)
  have "\<exists>w'. for_each initial_step [0..<length (agents s)] (rnd, ?s) = Inr w' \<and> ?I w'"
  proof (rule for_each_returns[where I = ?I])
    show "?I (rnd, ?s)" using a assms(4) by simp
  next
    fix i and w :: world
    assume i: "i \<in> set [0..<length (agents s)]" and I: "?I w"
    obtain r1 s1 where w: "w = (r1, s1)" by (cases w)
    from initial_step_returns[of s1 ?cls ci "agents s" i r1] I i n assms(1,3) a
    show "\<exists>w'. initial_step i w = Inr w' \<and> ?I w'"
      unfolding w by (auto simp del: initial_step.simps)
  qed
  with n a show ?thesis by (auto simp: calcInitialStates_def)
qed

theorem zero_total_cluster_assigns_no_compartment_witness:
  "\<exists>w w'. world_two = Inr w \<and>
          map agent_cluster (agents (snd w)) = [0, 1] \<and>
          proportions_NaN (clusters (calcInitialRatios (snd w)) ! 0) \<and>
          calcInitialStates 0 None (fst w, calcInitialRatios (snd w)) = Inr w' \<and>
          left_unassigned 0 (agents (snd w)) (agents (snd w')) \<and>
          agent_histories w' = [[], [(MarkS, ''SUSCEPTIBLE'')]]"
proof -
  define w where "w = projr world_two"
  have e: "world_two = Inr w"
    and h1: "0 < length (clusters (snd w))"
    and h2: "zero_total (cluster_states (clusters (snd w) ! 0))"
    and h3: "list_all (\<lambda>a. agent_cluster a < length (clusters (snd w))) (agents (snd w))"
    and h4: "''total_initial_infections'' \<in> set (map fst (counters (snd w)))"
    and c: "map agent_cluster (agents (snd w)) = [0, 1]"
    and a: "observe agent_histories (calcInitialStates 0 None (fst w, calcInitialRatios (snd w))) =
              Inr [[], [(MarkS, ''SUSCEPTIBLE'')]]"
    unfolding w_def
    by (simp_all add: world_two_def no_spec_def zero_total_def nonneg_weight_def engine_defs)
  from zero_total_cluster_assigns_no_compartment[OF h1 h2 h3 h4, of "fst w"] obtain w' where
    p: "proportions_NaN (clusters (calcInitialRatios (snd w)) ! 0)"
    and r: "calcInitialStates 0 None (fst w, calcInitialRatios (snd w)) = Inr w'"
    and u: "left_unassigned 0 (agents (snd w)) (agents (snd w'))" by blast
  from a r have "agent_histories w' = [[], [(MarkS, ''SUSCEPTIBLE'')]]"
    by (simp add: observe_def)
  with e c p r u show ?thesis by (intro exI[of _ w] exI[of _ w'] conjI)
qed

text \<open>
  Claim C4 as stated (initialization raises a validation error instead of computing the
  distribution and instead of producing agents without a compartment) fails: after
  \<^verbatim>\<open>clearAllInitialRatios\<close> the agent is created, the proportions are all NaN and the
  assignment returns with the agent's history empty. With no agent \<^verbatim>\<open>initialize\<close> returns
  normally; with one agent what it throws is the TypeError of the metrics pass reading
  the current compartment of an empty history.
\<close>

theorem zero_total_is_not_rejected:
  "observe agent_histories (and_then (world_zero 1) assign_only) = Inr [[]] \<and>
   observe proportions (and_then (world_zero 1) assign_only) =
     Inr [[Some NaN, Some NaN, Some NaN, Some NaN, Some NaN, Some NaN, Some NaN, Some NaN,
           Some NaN, Some NaN, Some NaN]] \<and>
   observe agent_histories (and_then (world_zero 0) initialize) = Inr [] \<and>
   and_then (world_zero 1) initialize = Inl TypeError"
  by (simp add: world_zero_def assign_only_def engine_defs)

subsection \<open>Loops and frames\<close>

lemma appended_iff:
  "appended Q a a' \<longleftrightarrow> (\<exists>es. states a' = states a @ es \<and> list_all Q es)"
proof
  assume "appended Q a a'"
  then have "states a' = states a @ drop (length (states a)) (states a')"
    "list_all Q (drop (length (states a)) (states a'))"
    by (auto simp: appended_def) (metis append_take_drop_id)
  then show "\<exists>es. states a' = states a @ es \<and> list_all Q es" by blast
next
  assume "\<exists>es. states a' = states a @ es \<and> list_all Q es"
  then show "appended Q a a'" by (auto simp: appended_def)
qed

lemma appended_refl [simp]: "appended Q a a"
  by (simp add: appended_iff)

lemma appended_same: "states a' = states a \<Longrightarrow> appended Q a a'"
  by (simp add: appended_iff)

lemma appended_trans: "appended Q a b \<Longrightarrow> appended Q b c \<Longrightarrow> appended Q a c"
  by (auto simp: appended_iff)

lemma appended_push: "Q e \<Longrightarrow> appended Q a (push_state e a)"
  by (simp add: appended_iff push_state_def)

lemma appended_mono: "appended Q a a' \<Longrightarrow> (\<And>e. Q e \<Longrightarrow> Q' e) \<Longrightarrow> appended Q' a a'"
  by (auto simp: appended_iff list_all_iff)

lemma appended_prefix: "appended Q a a' \<Longrightarrow> prefix (states a) (states a')"
  by (auto simp: appended_iff)

lemma agents_appended_refl [simp]: "list_all2 (appended Q) ags ags"
  by (simp add: list_all2_refl)

lemma agents_appended_trans:
  "list_all2 (appended Q) a b \<Longrightarrow> list_all2 (appended Q) b c \<Longrightarrow> list_all2 (appended Q) a c"
  using list_all2_trans[of "appended Q" "appended Q" "appended Q" a b c] appended_trans
  by blast

lemma agents_appended_update:
  assumes "i < length ags \<Longrightarrow> appended Q (ags ! i) a'"
  shows "list_all2 (appended Q) ags (ags[i := a'])"
proof -
  have "appended Q (ags ! n) (ags[i := a'] ! n)" if "n < length ags" for n
    using that assms by (cases "n = i") simp_all
  then show ?thesis by (simp add: list_all2_conv_all_nth)
qed

lemma evolves_refl [simp]: "evolves Q w w"
  by (simp add: evolves_def)

lemma evolves_trans: "evolves Q a b \<Longrightarrow> evolves Q b c \<Longrightarrow> evolves Q a c"
  unfolding evolves_def by (auto intro: agents_appended_trans)

lemma evolves_mono: "evolves Q w w' \<Longrightarrow> (\<And>e. Q e \<Longrightarrow> Q' e) \<Longrightarrow> evolves Q' w w'"
  unfolding evolves_def by (auto elim!: list_all2_mono intro: appended_mono)

lemma for_each_evolves:
  assumes "for_each f xs w = Inr w'"
    and "\<And>x w w'. x \<in> set xs \<Longrightarrow> f x w = Inr w' \<Longrightarrow> evolves Q w w'"
  shows "evolves Q w w'"
  by (rule for_each_related[OF assms(1), of "evolves Q"])
    (use assms(2) evolves_trans evolves_refl in blast)+

lemma evolves_agents:
  assumes "list_all2 (appended Q) (agents s) ags'"
  shows "evolves Q (rnd, s) (rnd, s\<lparr>agents := ags'\<rparr>)"
  using assms by (simp add: evolves_def)

lemma sset_stl: "sset (stl rnd) \<subseteq> sset rnd"
  by (auto intro: stl_sset)

lemma setDirection_frame:
  assumes "setDirection rnd a = Inr (rnd', a')"
  shows "rnd' = stl rnd \<and> states a' = states a"
  using assms by (auto simp: setDirection_def split: option.splits)

lemma states_reflect [simp]: "states (reflect cl a) = states a"
  by (simp add: reflect_def Let_def)

lemma states_correctPosition [simp]: "states (correctPosition cl a) = states a"
  by (simp add: correctPosition_def Let_def)

lemma counter_incr_frame:
  assumes "counter_incr k cs = Inr cs'"
  shows "map fst cs' = map fst cs \<and> (k' \<noteq> k \<longrightarrow> map_of cs' k' = map_of cs k')"
  using counter_incr_effect[OF assms, of k'] by simp

lemma makeInfection_evolves:
  assumes "makeInfection t risk w = Inr w'"
  shows "evolves exposed_entry w w'"
proof -
  obtain rnd s where w: "w = (rnd, s)" by (cases w)
  show ?thesis
  proof (cases "js_lt_opt (Num (shd rnd)) risk")
    case False
    with assms w show ?thesis by (auto simp: evolves_def intro: stl_sset)
  next
    case True
    let ?ags = "(agents s)[t := push_state (Iter (iteration s), ''INFECTED_EXPOSED'') (agents s ! t)]"
    from True assms w obtain cs where
      c: "counter_incr ''total_simulation_infections'' (counters s) = Inr cs"
      and w': "w' = (stl rnd, s\<lparr>agents := ?ags, counters := cs\<rparr>)"
      by (auto simp: Let_def split: sum.splits)
    have "list_all2 (appended exposed_entry) (agents s) ?ags"
      by (intro agents_appended_update appended_push) (simp add: exposed_entry_def)
    with counter_incr_frame[OF c] w w' show ?thesis
      by (auto simp: evolves_def intro: stl_sset)
  qed
qed

lemma infectAgent_evolves:
  assumes "infectAgent i j w = Inr w'"
  shows "evolves exposed_entry w w'"
proof -
  obtain rnd s where w: "w = (rnd, s)" by (cases w)
  from assms show ?thesis unfolding w
    by (auto split: sum.splits if_splits dest: makeInfection_evolves
          simp del: makeInfection.simps)
qed

lemma states_update_same:
  assumes "states a' = states (ags ! i)"
  shows "map states (ags[i := a']) = map states ags"
proof (cases "i < length ags")
  case True
  then have "(map states ags)[i := states (ags ! i)] = map states ags"
    by (metis list_update_id nth_map)
  with assms show ?thesis by (simp add: map_update)
next
  case False
  then have "length ags \<le> i" by simp
  then show ?thesis by (simp add: list_update_beyond)
qed

lemma same_states_appended:
  assumes "map states ags' = map states ags"
  shows "list_all2 (appended Q) ags ags'"
proof -
  from assms have l: "length ags' = length ags" by (metis length_map)
  have "states (ags' ! n) = states (ags ! n)" if "n < length ags" for n
    using that assms l by (metis nth_map)
  with l show ?thesis by (simp add: list_all2_conv_all_nth appended_same)
qed

lemma swap_velocity_states: "map states (swap_velocity i j ags) = map states ags"
proof -
  let ?a = "(ags ! i)\<lparr>agent_dx := agent_dx (ags ! j), agent_dy := agent_dy (ags ! j)\<rparr>"
  let ?b = "(ags ! j)\<lparr>agent_dx := agent_dx (ags ! i), agent_dy := agent_dy (ags ! i)\<rparr>"
  have 1: "map states (ags[i := ?a]) = map states ags"
    by (rule states_update_same) simp
  have "states ?b = states (ags[i := ?a] ! j)"
    by (cases "i < length ags"; cases "i = j") simp_all
  from states_update_same[OF this] 1 show ?thesis
    by (simp add: swap_velocity_def Let_def)
qed

lemma swap_velocity_appended: "list_all2 (appended Q) ags (swap_velocity i j ags)"
  by (rule same_states_appended[OF swap_velocity_states])

lemma detectCollision_frame:
  assumes "detectCollision s a b = (hit, s1)"
  shows "s1 = s\<lparr>collisions := collisions s1\<rparr>"
  using assms by (auto simp: detectCollision_def split: if_splits)

lemma evolves_sim:
  assumes "clusters s' = clusters s" "iteration s' = iteration s" "counters s' = counters s"
    "list_all2 (appended Q) (agents s) (agents s')"
  shows "evolves Q (rnd, s) (rnd, s')"
  using assms by (simp add: evolves_def)

lemma detect_step_evolves:
  assumes "detect_step i j w = Inr w'"
  shows "evolves exposed_entry w w'"
proof -
  obtain rnd s where w: "w = (rnd, s)" by (cases w)
  show ?thesis
  proof (cases "agent_id (agents s ! j) \<noteq> agent_id (agents s ! i)")
    case False
    with assms w show ?thesis by simp
  next
    case True
    obtain hit s1 where d: "detectCollision s (agents s ! i) (agents s ! j) = (hit, s1)"
      by (cases "detectCollision s (agents s ! i) (agents s ! j)")
    note f = detectCollision_frame[OF d]
    have e1: "evolves exposed_entry (rnd, s) (rnd, s1)"
      by (rule evolves_sim) (subst f, simp)+
    show ?thesis
    proof (cases hit)
      case False
      with assms w True d e1 show ?thesis by simp
    next
      case h: True
      define s2 where "s2 = (if elasticCollisions (config s1) \<and>
                               agent_id (agents s1 ! i) < agent_id (agents s1 ! j)
                            then s1\<lparr>agents := swap_velocity i j (agents s1)\<rparr>
                            else s1)"
      have e2: "evolves exposed_entry (rnd, s1) (rnd, s2)"
        by (rule evolves_sim) (simp_all add: s2_def swap_velocity_appended)
      from assms w True d h have "infectAgent i j (rnd, s2) = Inr w'"
        by (simp add: s2_def Let_def)
      from evolves_trans[OF evolves_trans[OF e1 e2] infectAgent_evolves[OF this]] w
      show ?thesis by simp
    qed
  qed
qed

lemma detectInfections_evolves:
  assumes "detectInfections i w = Inr w'"
  shows "evolves exposed_entry w w'"
  using assms unfolding detectInfections_def
  by (rule for_each_evolves) (rule detect_step_evolves)

lemma move_evolves:
  assumes "move i w = Inr w'"
  shows "evolves exposed_entry w w'"
proof -
  obtain rnd s where w: "w = (rnd, s)" by (cases w)
  from assms w obtain k where k: "getStateKey (agents s ! i) = Inr k"
    by (auto split: sum.splits)
  show ?thesis
  proof (cases "k = ''DEAD''")
    case True
    with assms w k have "w' = (rnd, s\<lparr>agents := (agents s)[i := (agents s ! i)\<lparr>agent_x := -1000,
                                                                  agent_y := -1000\<rparr>]\<rparr>)"
      by simp
    then show ?thesis unfolding w
      by (auto intro!: evolves_sim agents_appended_update appended_same)
  next
    case False
    from assms w k False obtain rnd1 a1 cl rnd2 s2 where
      d: "(if js_lt_opt (Num (shd rnd)) (movement_randomness (agents s ! i))
                     then setDirection (stl rnd) (agents s ! i)
                     else Inr (stl rnd, agents s ! i)) = Inr (rnd1, a1)"
      and c: "cluster_of s a1 = Some cl"
      and i: "detectInfections i (rnd1, s\<lparr>agents := (agents s)[i := reflect cl a1]\<rparr>) = Inr (rnd2, s2)"
      and w': "w' = (rnd2, s2\<lparr>agents := (agents s2)[i := correctPosition cl
                 ((agents s2 ! i)\<lparr>agent_x := agent_x (agents s2 ! i) + agent_dx (agents s2 ! i),
                                  agent_y := agent_y (agents s2 ! i) + agent_dy (agents s2 ! i)\<rparr>)]\<rparr>)"
      by (auto simp: Let_def split: sum.splits option.splits prod.splits)
    from d have a1: "sset rnd1 \<subseteq> sset rnd" "states a1 = states (agents s ! i)"
      by (auto split: if_splits dest!: setDirection_frame dest: stl_sset)
    have e1: "evolves exposed_entry (rnd, s) (rnd1, s\<lparr>agents := (agents s)[i := reflect cl a1]\<rparr>)"
      using a1 by (auto simp: evolves_def intro!: agents_appended_update appended_same)
    have e3: "evolves exposed_entry (rnd2, s2) w'"
      unfolding w' by (auto intro!: evolves_sim agents_appended_update appended_same)
    from evolves_trans[OF evolves_trans[OF e1 detectInfections_evolves[OF i]] e3] w
    show ?thesis by simp
  qed
qed

lemma move_agent_evolves:
  assumes "move_agent i w = Inr w'"
  shows "evolves exposed_entry w w'"
proof -
  obtain rnd s where w: "w = (rnd, s)" by (cases w)
  from assms show ?thesis unfolding w
    by (auto split: sum.splits if_splits dest: move_evolves simp del: move.simps)
qed

lemma eventMoveAgents_evolves:
  assumes "eventMoveAgents w = Inr w'"
  shows "evolves exposed_entry w w'"
  using assms unfolding eventMoveAgents_def
  by (rule for_each_evolves) (rule move_agent_evolves)

lemma first_match_sset: "sset (snd (first_match es rnd)) \<subseteq> sset rnd"
proof (induction es arbitrary: rnd)
  case Nil
  then show ?case by simp
next
  case (Cons e es)
  obtain n p where e: "e = (n, p)" by (cases e)
  from Cons[of "stl rnd"] show ?case
    by (auto simp: e dest: stl_sset)
qed

lemma advance_state_advanced:
  assumes "advance_state it e ra = Inr ra'"
  shows "advanced ra ra'"
proof -
  obtain state c rnd a where e: "e = (state, c)" "ra = (rnd, a)" by (cases e, cases ra)
  from assms first_match_sset[of "nextStateProb c" rnd] show ?thesis unfolding e
    by (auto simp: advanced_def any_entry_def split: sum.splits if_splits prod.splits option.splits
          intro!: appended_push)
qed

lemma advance_loop_advanced:
  assumes "for_each (advance_state it) sts ra = Inr ra'"
  shows "advanced ra ra'"
proof (rule for_each_related[OF assms, of advanced])
  show "\<And>x st st'. advance_state it x st = Inr st' \<Longrightarrow> advanced st st'"
    by (rule advance_state_advanced)
  show "\<And>st. advanced st st" by (simp add: advanced_def)
  show "\<And>a b c. advanced a b \<Longrightarrow> advanced b c \<Longrightarrow> advanced a c"
    by (auto simp: advanced_def intro: appended_trans)
qed

lemma advance_agent_evolves:
  assumes "advance_agent i w = Inr w'"
  shows "evolves any_entry w w'"
proof -
  obtain rnd s where w: "w = (rnd, s)" by (cases w)
  from assms w obtain cl where c: "cluster_of s (agents s ! i) = Some cl"
    by (auto split: option.splits)
  with assms w obtain ra' where
    l0: "for_each (advance_state (iteration s)) (cluster_states cl) (rnd, agents s ! i) = Inr ra'"
    by (cases "for_each (advance_state (iteration s)) (cluster_states cl) (rnd, agents s ! i)")
       auto
  obtain rnd' a' where ra': "ra' = (rnd', a')" by (cases ra')
  note l = l0[unfolded ra']
  from assms w c l have w': "w' = (rnd', s\<lparr>agents := (agents s)[i := a']\<rparr>)"
    by simp
  from advance_loop_advanced[OF l] show ?thesis unfolding w w'
    by (auto simp: evolves_def advanced_def intro!: agents_appended_update)
qed

lemma eventAdvanceAgents_evolves:
  assumes "eventAdvanceAgents w = Inr w'"
  shows "evolves any_entry w w'"
  using assms unfolding eventAdvanceAgents_def
  by (rule for_each_evolves) (rule advance_agent_evolves)

subsection \<open>Histories are append-only\<close>

lemma grows_refl [simp]: "grows w w"
  by (simp add: grows_def)

lemma grows_trans: "grows a b \<Longrightarrow> grows b c \<Longrightarrow> grows a c"
  unfolding grows_def by (rule agents_appended_trans)

lemma grows_same: "agents (snd w') = agents (snd w) \<Longrightarrow> grows w w'"
  by (simp add: grows_def)

lemma evolves_grows: "evolves Q w w' \<Longrightarrow> grows w w'"
  unfolding grows_def evolves_def
  by (auto elim!: list_all2_mono intro: appended_mono simp: any_entry_def)

lemma for_each_grows:
  assumes "for_each f xs w = Inr w'"
    and "\<And>x w w'. x \<in> set xs \<Longrightarrow> f x w = Inr w' \<Longrightarrow> grows w w'"
  shows "grows w w'"
  by (rule for_each_related[OF assms(1), of grows])
    (use assms(2) grows_trans grows_refl in blast)+

lemma run_event_grows:
  assumes "run_event e w = Inr w'"
  shows "grows w w'"
proof (cases e)
  case EventAdvanceAgents
  with assms show ?thesis by (auto dest: eventAdvanceAgents_evolves evolves_grows)
next
  case EventMoveAgents
  with assms show ?thesis by (auto dest: eventMoveAgents_evolves evolves_grows)
next
  case EventCalcResults
  with assms show ?thesis
    by (cases w) (auto split: sum.splits intro!: grows_same)
next
  case EventRecordResult
  with assms show ?thesis by (cases w) (auto intro!: grows_same)
next
  case EventRecordResultHeader
  with assms show ?thesis by (cases w) (auto intro!: grows_same)
qed

lemma runEvents_grows:
  assumes "runEvents evs w = Inr w'"
  shows "grows w w'"
  using assms unfolding runEvents_def
  by (rule for_each_grows) (rule run_event_grows)

lemma phase_loop_grows:
  assumes "for_each (\<lambda>cl. runEvents (f cl)) cls w = Inr w'"
  shows "grows w w'"
  using assms by (rule for_each_grows) (rule runEvents_grows)

lemma beforeIteration_grows:
  assumes "beforeIteration w = Inr w'"
  shows "grows w w'"
proof -
  obtain rnd s where w: "w = (rnd, s)" by (cases w)
  from assms have "grows (rnd, s\<lparr>eventPhase := BEFORE\<rparr>) w'"
    unfolding w by (auto dest: phase_loop_grows)
  then show ?thesis by (simp add: grows_def w)
qed

lemma afterIteration_grows:
  assumes "afterIteration w = Inr w'"
  shows "grows w w'"
proof -
  obtain rnd s where w: "w = (rnd, s)" by (cases w)
  from assms have "grows (rnd, s\<lparr>eventPhase := AFTER\<rparr>) w'"
    unfolding w by (auto dest: phase_loop_grows)
  then show ?thesis by (simp add: grows_def w)
qed

lemma pause_grows: "grows w (pause w)"
  by (cases w) (simp add: grows_def)

lemma stop_grows:
  assumes "stop w = Inr w'"
  shows "grows w w'"
  using assms unfolding stop_def
  by (auto dest!: afterIteration_grows intro: grows_trans[OF pause_grows])

lemma oneIteration_grows:
  assumes "oneIteration w = Inr w'"
  shows "grows w w'"
proof -
  obtain rnd s where w: "w = (rnd, s)" by (cases w)
  from assms w obtain rnd1 s1 where
    l: "for_each (\<lambda>cl. runEvents (duringEvents cl)) (clusters s) (rnd, s\<lparr>eventPhase := DURING\<rparr>)
          = Inr (rnd1, s1)"
    and r: "(let s2 = s1\<lparr>iteration := iteration s1 + 1\<rparr> in
             if maxIterations (config s2) > 0 \<and>
                iteration s2 mod maxIterations (config s2) = 0
             then stop (rnd1, s2) else Inr (rnd1, s2)) = Inr w'"
    by (auto split: sum.splits)
  from phase_loop_grows[OF l] have 1: "grows w (rnd1, s1\<lparr>iteration := iteration s1 + 1\<rparr>)"
    by (simp add: grows_def w)
  from r have "grows (rnd1, s1\<lparr>iteration := iteration s1 + 1\<rparr>) w'"
    by (auto simp: Let_def split: if_splits dest: stop_grows)
  with 1 show ?thesis by (rule grows_trans)
qed

lemma step_grows:
  assumes "step w = Inr w'"
  shows "grows w w'"
proof -
  obtain rnd s where w: "w = (rnd, s)" by (cases w)
  from assms show ?thesis unfolding w
    by (auto split: if_splits sum.splits simp del: oneIteration.simps beforeIteration.simps
          dest!: oneIteration_grows beforeIteration_grows intro: grows_trans)
qed

lemma play_grows:
  assumes "play w = Inr w'"
  shows "grows w w'"
proof -
  obtain rnd s where w: "w = (rnd, s)" by (cases w)
  have "grows (rnd, s) w'" if "beforeIteration (rnd, s\<lparr>sim_state := PLAYING\<rparr>) = Inr (rnd1, s1)"
    "w' = (rnd1, s1\<lparr>timer := True\<rparr>)" for rnd1 s1
    using beforeIteration_grows[OF that(1)] that(2) by (simp add: grows_def)
  with assms show ?thesis unfolding w
    by (auto split: if_splits sum.splits simp del: beforeIteration.simps simp: grows_def)
qed

lemma initial_step_grows:
  assumes "initial_step i w = Inr w'"
  shows "grows w w'"
proof -
  obtain rnd s where w: "w = (rnd, s)" by (cases w)
  have "grows (rnd, s) (rnd', s\<lparr>agents := (agents s)[i := push_state e a], counters := cs\<rparr>)"
    if "js_index (agents s) (int i) = Some a" for rnd' e a cs
    using that unfolding grows_def
    by (auto simp: js_index_def any_entry_def intro!: agents_appended_update appended_push
          split: if_splits)
  moreover have "grows (rnd, s) (rnd', s\<lparr>agents := (agents s)[i := push_state e a]\<rparr>)"
    if "js_index (agents s) (int i) = Some a" for rnd' e a
    using that unfolding grows_def
    by (auto simp: js_index_def any_entry_def intro!: agents_appended_update appended_push
          split: if_splits)
  moreover have "grows (rnd, s) (rnd', s)" for rnd'
    by (simp add: grows_def)
  ultimately show ?thesis using assms unfolding w
    by (auto simp: Let_def split: option.splits sum.splits if_splits prod.splits)
qed

lemma calcInitialStates_grows:
  assumes "calcInitialStates from to w = Inr w'"
  shows "grows w w'"
  using assms unfolding calcInitialStates_def
  by (rule for_each_grows) (rule initial_step_grows)

lemma run_operation_grows:
  assumes "run_operation op w = Inr w'"
  shows "grows w w'"
  using assms
  by (cases op)
    (auto dest: step_grows play_grows stop_grows oneIteration_grows run_event_grows
       calcInitialStates_grows intro: pause_grows)

lemma grows_histories_extend: "grows w w' \<Longrightarrow> histories_extend (agents (snd w)) (agents (snd w'))"
  unfolding grows_def histories_extend_def
  by (auto elim!: list_all2_mono dest: appended_prefix)

lemma prefix_keeps_current: "prefix (states a) (states a') \<Longrightarrow> keeps_current a a'"
  by (auto simp: keeps_current_def getStateKey_def)

text \<open>
  Claim C9 as amended: the constructor leaves the history empty; it becomes non-empty when
  \<^verbatim>\<open>calcInitialStates\<close> assigns an initial compartment. From then on the history is
  non-empty and its last entry is the agent's queried current compartment; and every
  operation of the engine on existing agents (\<^verbatim>\<open>step\<close>, \<^verbatim>\<open>play\<close>, \<^verbatim>\<open>pause\<close>,
  \<^verbatim>\<open>stop\<close>, one iteration, each event, \<^verbatim>\<open>calcInitialStates\<close>) only appends: each
  agent's earlier history is a prefix of its later one, so its length never decreases and
  no entry is removed or rewritten. (\<^verbatim>\<open>createAgents\<close> and \<^verbatim>\<open>removeAgents\<close> discard whole
  agents.)
\<close>

theorem histories_are_append_only:
  assumes "run_operation op w = Inr w'"
  shows "histories_extend (agents (snd w)) (agents (snd w')) \<and>
         list_all2 (\<lambda>a a'. length (states a) \<le> length (states a')) (agents (snd w)) (agents (snd w')) \<and>
         list_all2 keeps_current (agents (snd w)) (agents (snd w'))"
proof -
  from run_operation_grows[OF assms]
  have h: "histories_extend (agents (snd w)) (agents (snd w'))"
    by (rule grows_histories_extend)
  then show ?thesis
    unfolding histories_extend_def
    by (auto elim!: list_all2_mono dest: prefix_length_le prefix_keeps_current)
qed

theorem histories_are_append_only_witness:
  "\<exists>w'. and_then world_cascade (run_operation OpStep) = Inr w' \<and>
        agent_histories (projr world_cascade) = [[(MarkS, ''INFECTED_EXPOSED'')]] \<and>
        agent_histories w' =
          [[(MarkS, ''INFECTED_EXPOSED''), (Iter 0, ''INFECTED_ASYMPTOMATIC''),
            (Iter 0, ''INFECTED_SYMPTOMATIC'')]] \<and>
        histories_extend (agents (snd (projr world_cascade))) (agents (snd w')) \<and>
        list_all2 keeps_current (agents (snd (projr world_cascade))) (agents (snd w'))"
proof -
  define w0 where "w0 = projr world_cascade"
  have e0: "world_cascade = Inr w0"
    and h0: "agent_histories w0 = [[(MarkS, ''INFECTED_EXPOSED'')]]"
    and h1: "observe agent_histories (step w0) =
      Inr [[(MarkS, ''INFECTED_EXPOSED''), (Iter 0, ''INFECTED_ASYMPTOMATIC''),
           (Iter 0, ''INFECTED_SYMPTOMATIC'')]]"
    unfolding w0_def by (simp_all add: run_defs engine_defs)
  from h1 obtain w' where r: "step w0 = Inr w'"
    by (cases "step w0") (simp_all add: observe_def)
  then have op: "run_operation OpStep w0 = Inr w'" by simp
  have "and_then world_cascade (run_operation OpStep) = Inr w'"
    unfolding e0 and_then_def using op by simp
  moreover from h1 r have "agent_histories w' =
          [[(MarkS, ''INFECTED_EXPOSED''), (Iter 0, ''INFECTED_ASYMPTOMATIC''),
            (Iter 0, ''INFECTED_SYMPTOMATIC'')]]"
    by (simp add: observe_def)
  moreover note histories_are_append_only[OF op] h0
  ultimately show ?thesis unfolding w0_def[symmetric] by blast
qed

text \<open>
  Claim C9 as stated (the history is non-empty at every point after construction) fails:
  a constructed agent has an empty history, and \<^verbatim>\<open>getStateKey\<close> on it is a TypeError.
\<close>

theorem history_is_empty_after_construction:
  "observe agent_histories (createAgents world_new) = Inr [[]] \<and>
   observe current_compartments (createAgents world_new) = Inr [Inl TypeError]"
  by (simp add: world_new_def current_compartments_def engine_defs)

subsection \<open>SYMPTOMATIC to RECOVERED with probability 1\<close>



lemma getStateKey_push [simp]: "getStateKey (push_state e a) = Inr (snd e)"
  by (simp add: getStateKey_def push_state_def)



























subsection \<open>The tick completes\<close>


















lemma js_index_nth: "i < length xs \<Longrightarrow> js_index xs (int i) = Some (xs ! i)"
  by (simp add: js_index_def)
















subsection \<open>Leaving INFECTED_SYMPTOMATIC\<close>


























subsection \<open>The elastic-collision flag\<close>

lemma same_config_refl [simp]: "same_config w w"
  by (simp add: same_config_def)

lemma same_config_trans: "same_config a b \<Longrightarrow> same_config b c \<Longrightarrow> same_config a c"
  by (simp add: same_config_def)

lemma for_each_same_config:
  assumes "for_each f xs w = Inr w'"
    and "\<And>x w w'. x \<in> set xs \<Longrightarrow> f x w = Inr w' \<Longrightarrow> same_config w w'"
  shows "same_config w w'"
  by (rule for_each_related[OF assms(1), of same_config])
     (use assms(2) same_config_trans same_config_refl in blast)+

lemma makeInfection_config:
  assumes "makeInfection t risk w = Inr w'"
  shows "same_config w w'"
  using assms
  by (cases w) (auto simp: same_config_def Let_def split: if_splits sum.splits)

lemma infectAgent_config:
  assumes "infectAgent i j w = Inr w'"
  shows "same_config w w'"
proof -
  obtain rnd s where w: "w = (rnd, s)" by (cases w)
  from assms show ?thesis unfolding w
    by (auto split: sum.splits if_splits dest: makeInfection_config
          simp del: makeInfection.simps)
qed

lemma detectCollision_config: "config (snd (detectCollision s a b)) = config s"
  by (simp add: detectCollision_def)

lemma detect_step_config:
  assumes "detect_step i j w = Inr w'"
  shows "same_config w w'"
proof -
  obtain rnd s where w: "w = (rnd, s)" by (cases w)
  obtain hit s1 where d: "detectCollision s (agents s ! i) (agents s ! j) = (hit, s1)"
    by (cases "detectCollision s (agents s ! i) (agents s ! j)")
  from detectCollision_config[of s "agents s ! i" "agents s ! j"] d
  have c: "config s1 = config s" by simp
  from assms d c show ?thesis unfolding w
    by (auto simp: same_config_def Let_def split: if_splits dest!: infectAgent_config
          simp del: infectAgent.simps)
qed

lemma detectInfections_config:
  assumes "detectInfections i w = Inr w'"
  shows "same_config w w'"
  using assms unfolding detectInfections_def
  by (rule for_each_same_config) (rule detect_step_config)

lemma move_config:
  assumes "move i w = Inr w'"
  shows "same_config w w'"
proof -
  obtain rnd s where w: "w = (rnd, s)" by (cases w)
  from assms show ?thesis unfolding w
    by (auto simp: same_config_def Let_def
          split: sum.splits if_splits option.splits prod.splits
          dest!: detectInfections_config)
qed

lemma move_agent_config:
  assumes "move_agent i w = Inr w'"
  shows "same_config w w'"
proof -
  obtain rnd s where w: "w = (rnd, s)" by (cases w)
  from assms show ?thesis unfolding w
    by (auto split: sum.splits if_splits dest: move_config simp del: move.simps)
qed

lemma advance_agent_config:
  assumes "advance_agent i w = Inr w'"
  shows "same_config w w'"
proof -
  obtain rnd s where w: "w = (rnd, s)" by (cases w)
  from assms show ?thesis unfolding w
    by (auto simp: same_config_def split: sum.splits option.splits prod.splits)
qed

lemma run_event_config:
  assumes "run_event e w = Inr w'"
  shows "same_config w w'"
proof (cases e)
  case EventAdvanceAgents
  with assms show ?thesis
    by (auto simp: eventAdvanceAgents_def intro: for_each_same_config advance_agent_config)
next
  case EventMoveAgents
  with assms show ?thesis
    by (auto simp: eventMoveAgents_def intro: for_each_same_config move_agent_config)
next
  case EventCalcResults
  with assms show ?thesis
    by (cases w) (auto simp: same_config_def split: sum.splits)
next
  case EventRecordResult
  with assms show ?thesis by (cases w) (auto simp: same_config_def)
next
  case EventRecordResultHeader
  with assms show ?thesis by (cases w) (auto simp: same_config_def)
qed

lemma phase_loop_config:
  assumes "for_each (\<lambda>cl. runEvents (f cl)) cs w = Inr w'"
  shows "same_config w w'"
  using assms
proof (rule for_each_same_config)
  fix x w w' assume "runEvents (f x) w = Inr w'"
  then show "same_config w w'" unfolding runEvents_def
    by (rule for_each_same_config) (rule run_event_config)
qed

lemma beforeIteration_config:
  assumes "beforeIteration w = Inr w'"
  shows "same_config w w'"
proof -
  obtain rnd s where w: "w = (rnd, s)" by (cases w)
  from assms w have "for_each (\<lambda>cl. runEvents (beforeEvents cl)) (clusters s)
                       (rnd, s\<lparr>eventPhase := BEFORE\<rparr>) = Inr w'" by simp
  from phase_loop_config[OF this] show ?thesis by (simp add: same_config_def w)
qed

lemma pause_config: "same_config w (pause w)"
  by (cases w) (simp add: same_config_def)

lemma stop_config:
  assumes "stop w = Inr w'"
  shows "same_config w w'"
proof -
  obtain rnd s where p: "pause w = (rnd, s)" by (cases "pause w")
  from assms p have "for_each (\<lambda>cl. runEvents (afterEvents cl)) (clusters s)
                       (rnd, s\<lparr>eventPhase := AFTER\<rparr>) = Inr w'" by (simp add: stop_def)
  from phase_loop_config[OF this] pause_config[of w] p show ?thesis
    by (simp add: same_config_def)
qed

lemma oneIteration_config:
  assumes "oneIteration w = Inr w'"
  shows "same_config w w'"
proof -
  obtain rnd s where w: "w = (rnd, s)" by (cases w)
  from assms w obtain rnd1 s1 where
    l: "for_each (\<lambda>cl. runEvents (duringEvents cl)) (clusters s) (rnd, s\<lparr>eventPhase := DURING\<rparr>)
          = Inr (rnd1, s1)"
    and r: "stop (rnd1, s1\<lparr>iteration := iteration s1 + 1\<rparr>) = Inr w' \<or>
            w' = (rnd1, s1\<lparr>iteration := iteration s1 + 1\<rparr>)"
    by (auto simp: Let_def split: sum.splits if_splits)
  from phase_loop_config[OF l] have "config s1 = config s" by (simp add: same_config_def)
  with r show ?thesis unfolding w
    by (auto simp: same_config_def dest: stop_config)
qed

lemma step_config:
  assumes "step w = Inr w'"
  shows "same_config w w'"
proof -
  obtain rnd s where w: "w = (rnd, s)" by (cases w)
  from assms show ?thesis unfolding w
    by (auto split: if_splits sum.splits simp del: beforeIteration.simps oneIteration.simps
          dest!: beforeIteration_config oneIteration_config intro: same_config_trans)
qed

lemma play_config:
  assumes "play w = Inr w'"
  shows "same_config w w'"
proof -
  obtain rnd s where w: "w = (rnd, s)" by (cases w)
  from assms show ?thesis unfolding w
    by (auto simp: same_config_def split: if_splits sum.splits simp del: beforeIteration.simps
          dest!: beforeIteration_config)
qed

lemma initial_step_config:
  assumes "initial_step i w = Inr w'"
  shows "same_config w w'"
  using assms
  by (cases w)
     (auto simp: same_config_def Let_def split: option.splits sum.splits if_splits prod.splits)

lemma calcInitialStates_config:
  assumes "calcInitialStates from to w = Inr w'"
  shows "same_config w w'"
  using assms unfolding calcInitialStates_def
  by (rule for_each_same_config) (rule initial_step_config)

lemma run_operation_config:
  assumes "run_operation op w = Inr w'"
  shows "same_config w w'"
  using assms
  by (cases op)
     (auto dest: step_config play_config stop_config oneIteration_config run_event_config
        calcInitialStates_config intro: pause_config)

lemma generate_step_config:
  assumes "generate_step cl i w = Inr w'"
  shows "same_config w w'"
  using assms
  by (cases w)
     (auto simp: same_config_def Agent_def Let_def
        split: sum.splits option.splits prod.splits)

lemma generateAgents_config:
  assumes "generateAgents n cl w = Inr w'"
  shows "same_config w w'"
  using assms unfolding generateAgents_def
  by (rule for_each_same_config) (rule generate_step_config)

lemma createAgents_config:
  assumes "createAgents w = Inr w'"
  shows "same_config w w'"
proof -
  obtain rnd s where w: "w = (rnd, s)" by (cases w)
  from assms w have l: "for_each (\<lambda>i. generateAgents (numAgents (clusters s ! i)) (Some i))
       [0..<length (clusters s)] (rnd, s\<lparr>agents := []\<rparr>) = Inr w'" by simp
  have "same_config (rnd, s\<lparr>agents := []\<rparr>) w'"
    using l
  proof (rule for_each_same_config)
    fix x w w' assume "generateAgents (numAgents (clusters s ! x)) (Some x) w = Inr w'"
    then show "same_config w w'" by (rule generateAgents_config)
  qed
  then show ?thesis by (simp add: same_config_def w)
qed

lemma initialize_config:
  assumes "initialize w = Inr w'"
  shows "same_config w w'"
proof -
  from assms obtain rnd1 s1 w2 where c: "createAgents w = Inr (rnd1, s1)"
    and i: "calcInitialStates 0 None (rnd1, calcInitialRatios s1) = Inr w2"
    and e: "run_event EventCalcResults w2 = Inr w'"
    by (auto simp: initialize_def split: sum.splits)
  from createAgents_config[OF c] calcInitialStates_config[OF i] run_event_config[OF e]
  show ?thesis by (simp add: same_config_def calcInitialRatios_def)
qed

lemma on_cluster_config:
  assumes "on_cluster ci f s = Inr s'"
  shows "config s' = config s"
  using assms by (auto simp: on_cluster_def split: option.splits sum.splits)

lemma for_each_config:
  assumes "for_each f xs s = Inr s'"
    and "\<And>x s s'. x \<in> set xs \<Longrightarrow> f x s = Inr s' \<Longrightarrow> config s' = config s"
  shows "config s' = config (s :: sim)"
  by (rule for_each_related[OF assms(1), of "\<lambda>s s'. config s' = config s"])
     (use assms(2) in auto)

lemma setters_config:
  shows "setInitialRatio state val s = Inr s' \<Longrightarrow> config s' = config s"
    and "setInitialRatios arr s = Inr s' \<Longrightarrow> config s' = config s"
    and "clearAllInitialRatios s = Inr s' \<Longrightarrow> config s' = config s"
    and "setInfectiousness state val s = Inr s' \<Longrightarrow> config s' = config s"
    and "setClusterTransitions ci arr3 s = Inr s' \<Longrightarrow> config s' = config s"
    and "setTransitions arr3 s = Inr s' \<Longrightarrow> config s' = config s"
proof -
  show "setInitialRatio state val s = Inr s' \<Longrightarrow> config s' = config s"
    unfolding setInitialRatio_def by (rule on_cluster_config)
  show "setInfectiousness state val s = Inr s' \<Longrightarrow> config s' = config s"
    unfolding setInfectiousness_def by (rule on_cluster_config)
  show "setInitialRatios arr s = Inr s' \<Longrightarrow> config s' = config s"
    unfolding setInitialRatios_def
    by (erule for_each_config, erule for_each_config, erule on_cluster_config)
  show "clearAllInitialRatios s = Inr s' \<Longrightarrow> config s' = config s"
    unfolding clearAllInitialRatios_def
    by (erule for_each_config)
       (auto split: option.splits elim!: for_each_config dest: on_cluster_config)
  show c: "setClusterTransitions ci arr3 s = Inr s' \<Longrightarrow> config s' = config s" for ci s s'
    unfolding setClusterTransitions_def
    by (erule for_each_config, erule on_cluster_config)
  show "setTransitions arr3 s = Inr s' \<Longrightarrow> config s' = config s"
    unfolding setTransitions_def
    by (erule for_each_config) (rule c)
qed

lemma run_call_config:
  assumes "run_call c w = Inr w'"
  shows "same_config w w'"
  using assms
  by (cases c)
     (auto simp: on_sim_def same_config_def removeAgents_def calcInitialRatios_def
        split: sum.splits
        dest: initialize_config[unfolded same_config_def]
          run_operation_config[unfolded same_config_def]
          createAgents_config[unfolded same_config_def]
          generateAgents_config[unfolded same_config_def] setters_config)

lemma run_calls_config:
  assumes "run_calls cs w = Inr w'"
  shows "config (snd w') = config (snd w)"
proof -
  from assms have "same_config w w'" unfolding run_calls_def
    by (rule for_each_same_config) (rule run_call_config)
  then show ?thesis by (simp add: same_config_def)
qed

lemma velocity_update [simp]:
  "velocity (a\<lparr>agent_dx := x, agent_dy := y\<rparr>) = (x, y)" "velocity (push_state e a) = velocity a"
  by (simp_all add: velocity_def push_state_def)

lemma swap_velocity_swaps:
  assumes "i < length ags" and "j < length ags" and "i \<noteq> j"
  shows "velocity (swap_velocity i j ags ! i) = velocity (ags ! j)"
    and "velocity (swap_velocity i j ags ! j) = velocity (ags ! i)"
  using assms by (simp_all add: swap_velocity_def Let_def velocity_def)

lemma velocity_list_update:
  assumes "velocity a' = velocity (ags ! t)"
  shows "map velocity (ags[t := a']) = map velocity ags"
proof (cases "t < length ags")
  case True
  then have "(map velocity ags)[t := velocity (ags ! t)] = map velocity ags"
    by (metis list_update_id nth_map)
  with assms show ?thesis by (simp add: map_update)
next
  case False
  then show ?thesis by (simp add: list_update_beyond)
qed

lemma makeInfection_velocity:
  assumes "makeInfection t risk w = Inr w'"
  shows "map velocity (agents (snd w')) = map velocity (agents (snd w))"
  using assms
  by (cases w) (auto simp: Let_def velocity_list_update split: if_splits sum.splits)

lemma infectAgent_velocity:
  assumes "infectAgent i j w = Inr w'"
  shows "map velocity (agents (snd w')) = map velocity (agents (snd w))"
proof -
  obtain rnd s where w: "w = (rnd, s)" by (cases w)
  from assms show ?thesis unfolding w
    by (auto split: sum.splits if_splits dest: makeInfection_velocity
          simp del: makeInfection.simps)
qed

lemma detect_step_swaps:
  assumes "elasticCollisions (config (snd w))"
    and "i < length (agents (snd w))" and "j < length (agents (snd w))"
    and "agent_id (agents (snd w) ! i) < agent_id (agents (snd w) ! j)"
    and "fst (detectCollision (snd w) (agents (snd w) ! i) (agents (snd w) ! j))"
    and "detect_step i j w = Inr w'"
  shows "velocity (agents (snd w') ! i) = velocity (agents (snd w) ! j) \<and>
         velocity (agents (snd w') ! j) = velocity (agents (snd w) ! i)"
proof -
  obtain rnd s where w: "w = (rnd, s)" by (cases w)
  obtain hit s1 where d: "detectCollision s (agents s ! i) (agents s ! j) = (hit, s1)"
    by (cases "detectCollision s (agents s ! i) (agents s ! j)")
  from detectCollision_frame[OF d] have f: "s1 = s\<lparr>collisions := collisions s1\<rparr>" .
  have a1: "agents s1 = agents s" "config s1 = config s" by (subst f, simp)+
  from assms(4) w have ne: "i \<noteq> j" by auto
  from assms(5) d w have hit by simp
  with assms(1,4,6) d a1 w
  have "infectAgent i j (rnd, s1\<lparr>agents := swap_velocity i j (agents s)\<rparr>) = Inr w'"
    by (simp add: Let_def del: infectAgent.simps)
  from infectAgent_velocity[OF this]
  have m: "map velocity (agents (snd w')) = map velocity (swap_velocity i j (agents s))" by simp
  from assms(2,3) w have l: "i < length (agents s)" "j < length (agents s)" by simp_all
  then have l': "i < length (swap_velocity i j (agents s))" "j < length (swap_velocity i j (agents s))"
    by (simp_all add: swap_velocity_def Let_def)
  from m have len: "length (agents (snd w')) = length (swap_velocity i j (agents s))"
    by (metis length_map)
  from m l' len have "velocity (agents (snd w') ! i) = velocity (swap_velocity i j (agents s) ! i)"
    "velocity (agents (snd w') ! j) = velocity (swap_velocity i j (agents s) ! j)"
    by (metis nth_map)+
  with swap_velocity_swaps[OF l ne] w show ?thesis by simp
qed

text \<open>
  Claim C10: for every options object, also one that sets the elastic-collision flag to
  false, the constructed simulation has \<^verbatim>\<open>elasticCollisions\<close> equal to true
  (\<^verbatim>\<open>options.elasticCollisions || true\<close>). No call assigns the flag, so it is still
  true after every sequence of calls that does not throw, and then velocity swaps are
  enabled: a pass of the loop of \<^verbatim>\<open>detectInfections\<close> that detects a collision of
  \<^verbatim>\<open>this\<close> with an agent of a larger id exchanges the velocities of the two.
\<close>

theorem elasticCollisions_cannot_be_turned_off:
  "elasticCollisions (config (processOptions opts)) \<and>
   (run_calls cs (rnd, processOptions opts) = Inr w \<longrightarrow>
      elasticCollisions (config (snd w)) \<and>
      (i < length (agents (snd w)) \<and> j < length (agents (snd w)) \<and>
       agent_id (agents (snd w) ! i) < agent_id (agents (snd w) ! j) \<and>
       fst (detectCollision (snd w) (agents (snd w) ! i) (agents (snd w) ! j)) \<and>
       detect_step i j w = Inr w' \<longrightarrow>
         velocity (agents (snd w') ! i) = velocity (agents (snd w) ! j) \<and>
         velocity (agents (snd w') ! j) = velocity (agents (snd w) ! i)))"
proof -
  have 0: "elasticCollisions (config (processOptions opts))"
    by (simp add: processOptions_def Let_def js_or_bool_def split: option.splits)
  have "elasticCollisions (config (snd w))" if "run_calls cs (rnd, processOptions opts) = Inr w"
    using run_calls_config[OF that] 0 by simp
  with 0 detect_step_swaps[of w i j w'] show ?thesis by blast
qed

theorem elasticCollisions_cannot_be_turned_off_witness:
  "\<exists>w w'. run_calls [CallInitialize] (draws_elastic, processOptions options_inelastic) = Inr w \<and>
          opt_elasticCollisions options_inelastic = Some False \<and>
          map velocity (agents (snd w)) = [(0, 1), (-1, -1)] \<and>
          detect_step 0 1 w = Inr w' \<and>
          velocity (agents (snd w') ! 0) = (-1, -1) \<and>
          velocity (agents (snd w') ! 1) = (0, 1) \<and>
          observe (\<lambda>w. map velocity (agents (snd w))) (eventMoveAgents w) =
            Inr [(-1, -1), (0, 1)]"
proof -
  define w where "w = projr (run_calls [CallInitialize] (draws_elastic, processOptions options_inelastic))"
  define w' where "w' = projr (detect_step 0 1 w)"
  have e: "run_calls [CallInitialize] (draws_elastic, processOptions options_inelastic) = Inr w"
    and o: "opt_elasticCollisions options_inelastic = Some False"
    and v: "map velocity (agents (snd w)) = [(0, 1), (-1, -1)]"
    and h: "0 < length (agents (snd w)) \<and> 1 < length (agents (snd w)) \<and>
       agent_id (agents (snd w) ! 0) < agent_id (agents (snd w) ! 1) \<and>
       fst (detectCollision (snd w) (agents (snd w) ! 0) (agents (snd w) ! 1))"
    and d: "detect_step 0 1 w = Inr w'"
    and m: "observe (\<lambda>w. map velocity (agents (snd w))) (eventMoveAgents w) =
              Inr [(-1, -1), (0, 1)]"
    unfolding w_def w'_def
    by (simp_all add: run_calls_def draws_elastic_def options_inelastic_def velocity_def
          engine_defs)
  from v have v0: "velocity (agents (snd w) ! 0) = (0, 1)" "velocity (agents (snd w) ! 1) = (-1, -1)"
    using h by (metis nth_map nth_Cons_0, metis nth_map nth_Cons_0 nth_Cons_Suc One_nat_def)
  from elasticCollisions_cannot_be_turned_off[of options_inelastic "[CallInitialize]" draws_elastic w 0 1 w'] e h d v0
  have "velocity (agents (snd w') ! 0) = (-1, -1)" "velocity (agents (snd w') ! 1) = (0, 1)"
    by simp_all
  with e o v d m show ?thesis by (intro exI[of _ w] exI[of _ w'] conjI)
qed

end
